theory Spec2Isabelle
  imports Main "HOL-Library.AList" "HOL-Library.Sublist"
begin

section \<open>Strings and formatting\<close>

text \<open>
  Go strings are byte sequences: they are modelled as \<open>string\<close> (a list of 8-bit
  characters).  The few library functions of \<^verbatim>\<open>strings\<close> and \<^verbatim>\<open>fmt\<close> that the driver
  calls are written out below, from their documented behaviour.
\<close>

text \<open>\<^verbatim>\<open>fmt.Sprintf("%d", n)\<close>: decimal digits, most significant first.\<close>

definition digit_char :: "nat \<Rightarrow> char" where
  "digit_char d = ''0123456789'' ! d"

function show_nat :: "nat \<Rightarrow> string" where
  "show_nat n = (if n < 10 then [digit_char n] else show_nat (n div 10) @ [digit_char (n mod 10)])"
  by pat_completeness auto
termination
  by (relation "measure id") auto

declare show_nat.simps [simp del]

definition fmt_d :: "int \<Rightarrow> string" where
  "fmt_d i = (if i < 0 then CHR ''-'' # show_nat (nat (- i)) else show_nat (nat i))"

text \<open>
  The counters of the driver have the Go type \<^verbatim>\<open>int\<close>, taken here with the 64 bits
  it has on a 64-bit platform.  A counter is an integer between \<open>MinInt64\<close> and
  \<open>MaxInt64\<close>, and \<^verbatim>\<open>counter++\<close> wraps around in two's complement: it is
  \<open>wrap_int (counter + 1)\<close>.
\<close>

definition MaxInt64 :: int where
  "MaxInt64 = 9223372036854775807"

definition MinInt64 :: int where
  "MinInt64 = - 9223372036854775808"

definition wrap_int :: "int \<Rightarrow> int" where
  "wrap_int i = (i + 9223372036854775808) mod 18446744073709551616 - 9223372036854775808"

text \<open>
  \<^verbatim>\<open>strings.Split(s, sep)\<close> for a separator of one byte (the driver only splits on
  \<^verbatim>\<open>"."\<close> and \<^verbatim>\<open>"_"\<close>): the pieces between the separators, empty pieces included, so
  that the empty string gives one empty piece.
\<close>

fun strings_Split :: "string \<Rightarrow> char \<Rightarrow> string list" where
  "strings_Split [] sep = [[]]"
| "strings_Split (c # cs) sep =
     (if c = sep then [] # strings_Split cs sep
      else (case strings_Split cs sep of
              [] \<Rightarrow> [[c]]
            | p # ps \<Rightarrow> (c # p) # ps))"

text \<open>\<^verbatim>\<open>strings.Contains(s, sep)\<close> and \<^verbatim>\<open>strings.Join(parts, sep)\<close>.\<close>

definition strings_Contains :: "string \<Rightarrow> char \<Rightarrow> bool" where
  "strings_Contains s sep = (sep \<in> set s)"

fun strings_Join :: "string list \<Rightarrow> string \<Rightarrow> string" where
  "strings_Join [] sep = []"
| "strings_Join [p] sep = p"
| "strings_Join (p # q # ps) sep = p @ sep @ strings_Join (q # ps) sep"

text \<open>
  \<^verbatim>\<open>strings.ToUpper\<close> applied to a string of one byte, which is all that
  \<^verbatim>\<open>prepareForeignKey\<close> passes to it: a lower-case ASCII letter is capitalised, any other
  ASCII byte is kept, and a byte from \<open>0x80\<close> on is not valid UTF-8 on its own, so it
  comes back as the three bytes of the replacement character U+FFFD.
\<close>

definition ToUpper1 :: "char \<Rightarrow> string" where
  "ToUpper1 c =
     (case map_of (zip ''abcdefghijklmnopqrstuvwxyz'' ''ABCDEFGHIJKLMNOPQRSTUVWXYZ'') c of
        Some u \<Rightarrow> [u]
      | None \<Rightarrow> if digit7 c then [CHR 0xEF, CHR 0xBF, CHR 0xBD] else [c])"

section \<open>Values, errors and the filter tree\<close>

text \<open>
  The driver handles column values as \<^verbatim>\<open>any\<close>, and Go compares two \<^verbatim>\<open>any\<close> by
  dynamic type and value.  Every constructor below is one dynamic type, so that equality
  of the model's values is that comparison: SQL NULL (\<^verbatim>\<open>nil\<close>); \<open>VInt\<close>, an
  \<^verbatim>\<open>int64\<close>, which is how a driver hands over an integer column; \<open>VGoInt\<close>, an
  \<^verbatim>\<open>int\<close>, as in a struct field declared \<^verbatim>\<open>int\<close>; strings; instants of time
  (\<^verbatim>\<open>time.Time\<close>); and the string-like wrapper \<^verbatim>\<open>RawSQL\<close> that the README tells
  callers to declare (\<^verbatim>\<open>type RawSQL string\<close>).  Values of other dynamic types, among
  them the byte slices that cannot be compared or used as a map key, are outside the
  model.
\<close>

datatype val = VNil | VInt int | VGoInt int | VStr string | VTime nat | RawSQL string

text \<open>
  Errors are values.  \<open>Errorf m\<close> is \<^verbatim>\<open>fmt.Errorf\<close> with the finished message \<open>m\<close>,
  \<open>Wrap m e\<close> is \<^verbatim>\<open>fmt.Errorf("m: %w", e)\<close>, \<open>Driver m\<close> is an error of the SQL driver,
  and \<open>Panic m\<close> is a run-time panic, which no caller of this package recovers.
\<close>

datatype error =
    ErrNoRows
  | ErrNoDocumentsFound
  | Driver string
  | Errorf string
  | Wrap string error
  | Panic string

fun errors_Is_ErrNoRows :: "error \<Rightarrow> bool" where
  "errors_Is_ErrNoRows ErrNoRows = True"
| "errors_Is_ErrNoRows (Wrap m e) = errors_Is_ErrNoRows e"
| "errors_Is_ErrNoRows e = False"

abbreviation ComparatorIn :: string where "ComparatorIn \<equiv> ''IN''"
abbreviation ComparatorNotIn :: string where "ComparatorNotIn \<equiv> ''NOT IN''"
abbreviation ComparatorIsNull :: string where "ComparatorIsNull \<equiv> ''IS NULL''"
abbreviation ComparatorIsNotNull :: string where "ComparatorIsNotNull \<equiv> ''IS NOT NULL''"
abbreviation OperatorAnd :: string where "OperatorAnd \<equiv> ''AND''"
abbreviation OperatorOr :: string where "OperatorOr \<equiv> ''OR''"

text \<open>
  Modelled from the spec: \<^verbatim>\<open>models.FilterSqlComparatorIsNull\<close> is declared in the godb
  module, which is not part of this repository; the specification gives the tombstone
  test as \<^verbatim>\<open>d IS NULL\<close>, so the constant is the comparator \<^verbatim>\<open>IS NULL\<close>.
\<close>

abbreviation FilterSqlComparatorIsNull :: string where
  "FilterSqlComparatorIsNull \<equiv> ''IS NULL''"

text \<open>
  Modelled from the spec: the filter types \<^verbatim>\<open>models.Filter\<close>,
  \<^verbatim>\<open>models.FilterMultipleValue\<close> and \<^verbatim>\<open>models.GroupFilter\<close> are declared in the godb
  module, which is not part of this repository; their fields are the ones the
  specification lists and the driver reads.  \<^verbatim>\<open>GroupFilter.Filters\<close> is a \<^verbatim>\<open>[]any\<close>:
  \<^verbatim>\<open>prepareFilters\<close> recognises the three filter types and ignores an element of any
  other dynamic type (\<open>Other\<close>).  A pointer field that may be \<^verbatim>\<open>nil\<close> is an \<open>option\<close>.
\<close>

datatype filter =
    Filter (Key: string) (Value: val) (Comparator: "string option") (FOperator: "string option")
  | FilterMultipleValue string "val list" "string option"
  | Group group
  | Other val
and group =
    GroupFilter (Filters: "filter list") (Operator: string)

section \<open>The filter compiler\<close>

text \<open>
  \<^verbatim>\<open>log.Println(a, b, ...)\<close> appends one line to the standard logger; a line is kept as
  the list of its operands.
\<close>

datatype operand = S string | Vs "val list"

type_synonym logline = "operand list"

text \<open>
  The inner loop of the multi-value branch: one placeholder per value, separated by
  \<^verbatim>\<open>", "\<close> from the second on.  The state is the text written so far, the values
  collected so far, the placeholder counter and \<^verbatim>\<open>subitems\<close>.
\<close>

fun multi_values :: "val list \<Rightarrow> string \<times> val list \<times> int \<times> int \<Rightarrow> string \<times> val list \<times> int \<times> int" where
  "multi_values [] st = st"
| "multi_values (v # vs) (currentParts, currentVals, counter, subitems) =
     multi_values vs
       ((if subitems > 1 then currentParts @ '', '' else currentParts) @ ''$'' @ fmt_d counter,
        currentVals @ [v], wrap_int (counter + 1), wrap_int (subitems + 1))"

text \<open>
  The end of the loop body of \<^verbatim>\<open>prepareFilters\<close>: a non-empty part is written to the
  query builder, after the group operator when the builder already holds text.
\<close>

definition emit :: "string \<Rightarrow> string \<times> val list \<Rightarrow> string \<times> val list \<Rightarrow> string \<times> val list" where
  "emit operator cur acc =
     (case (cur, acc) of ((currentParts, currentVals), (queryBuilder, vals)) \<Rightarrow>
        if length currentParts > 0 then
          ((if length queryBuilder > 0
            then queryBuilder @ '' '' @ (if operator \<noteq> '''' then operator else OperatorAnd) @ '' ''
            else queryBuilder) @ currentParts,
           vals @ currentVals)
        else (queryBuilder, vals))"

text \<open>
  \<^verbatim>\<open>prepareFilters(filters, counter)\<close> returns the fragment, the arguments and the
  next placeholder index; the model returns the log lines it printed as a fourth
  component.  \<open>filters_loop\<close> is its \<^verbatim>\<open>for\<close> loop over \<^verbatim>\<open>filters.Filters\<close>, with the
  state (query builder, vals, counter, log).
\<close>

fun prepareFilters :: "group \<Rightarrow> int \<Rightarrow> string \<times> val list \<times> int \<times> logline list"
and filters_loop :: "string \<Rightarrow> filter list \<Rightarrow> string \<times> val list \<times> int \<times> logline list
                       \<Rightarrow> string \<times> val list \<times> int \<times> logline list" where
  "prepareFilters (GroupFilter fs operator) counter =
     filters_loop operator fs ('''', [], if counter \<le> 0 then 1 else counter, [])"
| "filters_loop operator [] st = st"
| "filters_loop operator (Filter key v cmp fop # fs) (queryBuilder, vals, counter, lg) =
     (let comparator = (case cmp of None \<Rightarrow> ''='' | Some c \<Rightarrow> c) in
      if comparator \<noteq> ComparatorIsNull \<and> comparator \<noteq> ComparatorIsNotNull
         \<and> comparator \<noteq> ComparatorIn \<and> comparator \<noteq> ComparatorNotIn then
        (case emit operator (key @ '' '' @ comparator @ '' $'' @ fmt_d counter, [v]) (queryBuilder, vals) of
           (qb, vs) \<Rightarrow> filters_loop operator fs (qb, vs, wrap_int (counter + 1), lg))
      else if comparator = ComparatorIn \<or> comparator = ComparatorNotIn then
        filters_loop operator fs (queryBuilder, vals, counter,
          lg @ [[S ''models.Filter not support 'IN' or 'NOT IN' comparator, use models.FilterMultipleValue'']])
      else
        (case emit operator (key @ '' '' @ comparator, []) (queryBuilder, vals) of
           (qb, vs) \<Rightarrow> filters_loop operator fs (qb, vs, counter, lg)))"
| "filters_loop operator (FilterMultipleValue key values cmp # fs) (queryBuilder, vals, counter, lg) =
     (let comparator = (case cmp of None \<Rightarrow> ''IN'' | Some c \<Rightarrow> c) in
      if comparator = ComparatorIn \<or> comparator = ComparatorNotIn then
        (case multi_values values (key @ '' '' @ comparator @ '' ('', [], counter, 1) of
           (currentParts, currentVals, counter', subitems) \<Rightarrow>
             (case emit operator (currentParts @ '')'', currentVals) (queryBuilder, vals) of
                (qb, vs) \<Rightarrow> filters_loop operator fs (qb, vs, counter', lg)))
      else
        (case emit operator ('''', []) (queryBuilder, vals) of
           (qb, vs) \<Rightarrow> filters_loop operator fs (qb, vs, counter, lg)))"
| "filters_loop operator (Group g # fs) (queryBuilder, vals, counter, lg) =
     (case prepareFilters g counter of
        (subQuery, subVals, newCounter, sublg) \<Rightarrow>
          (case emit operator
                  (if subQuery \<noteq> '''' then (''('' @ subQuery @ '')'', subVals) else ('''', []))
                  (queryBuilder, vals) of
             (qb, vs) \<Rightarrow> filters_loop operator fs (qb, vs, newCounter, lg @ sublg)))"
| "filters_loop operator (Other x # fs) st = filters_loop operator fs st"

text \<open>
  \<^verbatim>\<open>prepareSoftDelete(softDelete, filters)\<close>: the tombstone group is appended to the
  caller's filter list, or stands alone when that list is empty.
\<close>

definition prepareSoftDelete :: "string option \<Rightarrow> group \<Rightarrow> group" where
  "prepareSoftDelete softDelete filters =
     (case softDelete of
        None \<Rightarrow> filters
      | Some d \<Rightarrow>
          if d = '''' then filters
          else
            (let newGroup = GroupFilter [Filter d VNil (Some FilterSqlComparatorIsNull) (Some ''OR'')] ''OR''
             in if length (Filters filters) > 0
                then GroupFilter (Filters filters @ [Group newGroup]) (Operator filters)
                else newGroup))"

text \<open>
  \<^verbatim>\<open>prepareForeignKey(str)\<close>: every piece between underscores gets its first byte
  upper-cased.  \<^verbatim>\<open>parts[i][:1]\<close> on an empty piece is a slice out of range, a run-time
  panic; \<open>capitalize_parts\<close> is the loop, with the string builder as its state.
\<close>

fun capitalize_parts :: "string list \<Rightarrow> string \<Rightarrow> error + string" where
  "capitalize_parts [] buffer = Inr buffer"
| "capitalize_parts (p # ps) buffer =
     (case p of
        [] \<Rightarrow> Inl (Panic ''slice bounds out of range [:1] with length 0'')
      | c # cs \<Rightarrow> capitalize_parts ps (buffer @ ToUpper1 c @ cs))"

definition prepareForeignKey :: "string \<Rightarrow> error + string" where
  "prepareForeignKey str = capitalize_parts (strings_Split str CHR ''_'') []"

text \<open>Two neighbouring bytes of a string are both the byte \<open>c\<close>.\<close>

fun adjacent :: "char \<Rightarrow> string \<Rightarrow> bool" where
  "adjacent c (x # y # zs) = ((x = c \<and> y = c) \<or> adjacent c (y # zs))"
| "adjacent c zs = False"

section \<open>Reading a fragment back\<close>

text \<open>
  The placeholders of a fragment, read off its text: every \<^verbatim>\<open>$\<close> starts one, and its
  index is the decimal number made of the digits that follow it.
\<close>

definition is_digit :: "char \<Rightarrow> bool" where
  "is_digit c = (c \<in> set ''0123456789'')"

definition digit_val :: "char \<Rightarrow> nat" where
  "digit_val c = length (takeWhile (\<lambda>x. x \<noteq> c) ''0123456789'')"

definition read_nat :: "string \<Rightarrow> nat" where
  "read_nat s = foldl (\<lambda>a c. a * 10 + digit_val c) 0 (takeWhile is_digit s)"

fun placeholders :: "string \<Rightarrow> nat list" where
  "placeholders [] = []"
| "placeholders (c # cs) =
     (if c = CHR ''$'' then read_nat cs # placeholders cs else placeholders cs)"

text \<open>
  A filter tree is clean when no key, no comparator and no group operator in it contains
  the character \<^verbatim>\<open>$\<close>: the compiler copies these three into the fragment as they are.
\<close>

abbreviation dollar_free :: "string \<Rightarrow> bool" where
  "dollar_free s \<equiv> CHR ''$'' \<notin> set s"

fun clean_filter :: "filter \<Rightarrow> bool" and clean_group :: "group \<Rightarrow> bool" where
  "clean_filter (Filter key v cmp fop) =
     (dollar_free key \<and> (case cmp of None \<Rightarrow> True | Some c \<Rightarrow> dollar_free c))"
| "clean_filter (FilterMultipleValue key vs cmp) =
     (dollar_free key \<and> (case cmp of None \<Rightarrow> True | Some c \<Rightarrow> dollar_free c))"
| "clean_filter (Group g) = clean_group g"
| "clean_filter (Other v) = True"
| "clean_group (GroupFilter fs operator) = (dollar_free operator \<and> (\<forall>x \<in> set fs. clean_filter x))"

text \<open>The line that the compiler logs for a single-value filter with a set comparator.\<close>

abbreviation diagnostic :: logline where
  "diagnostic \<equiv> [S ''models.Filter not support 'IN' or 'NOT IN' comparator, use models.FilterMultipleValue'']"

text \<open>
  Notions used in the proofs about the compiler: a loop state without its log, a result
  with log lines put in front, and the two invariants of the loop.  \<open>args_inv b\<close>: an
  empty builder has collected no value, and as long as the base \<open>b\<close> plus the number of
  values collected does not exceed \<open>MaxInt64\<close> the counter is that sum.
  \<open>dense s n m\<close>: whatever text follows \<open>s\<close>, provided it does not start with a digit,
  the placeholders of \<open>s\<close> are \<open>n, \<dots>, m - 1\<close> in this order.  \<open>holes_inv b\<close>: the
  builder has one \<^verbatim>\<open>$\<close> per value, and under the same bound its placeholders are
  dense from \<open>b\<close>.
\<close>

definition addlog :: "logline list \<Rightarrow> string \<times> val list \<times> int \<times> logline list \<Rightarrow> string \<times> val list \<times> int \<times> logline list" where
  "addlog lg r = (case r of (qb, vals, counter, l) \<Rightarrow> (qb, vals, counter, lg @ l))"

definition core :: "string \<times> val list \<times> int \<times> logline list \<Rightarrow> string \<times> val list \<times> int" where
  "core st = (case st of (qb, vals, counter, lg) \<Rightarrow> (qb, vals, counter))"

definition args_inv :: "int \<Rightarrow> string \<times> val list \<times> int \<Rightarrow> bool" where
  "args_inv b st = (case st of (qb, vals, counter) \<Rightarrow>
     1 \<le> b \<and> (qb = [] \<longrightarrow> vals = []) \<and>
     (b + int (length vals) \<le> MaxInt64 \<longrightarrow> counter = b + int (length vals)))"

definition dense :: "string \<Rightarrow> nat \<Rightarrow> nat \<Rightarrow> bool" where
  "dense s n m = (n \<le> m \<and> (\<forall>t. (t = [] \<or> \<not> is_digit (hd t)) \<longrightarrow>
                    placeholders (s @ t) = [n..<m] @ placeholders t))"

definition holes_inv :: "int \<Rightarrow> string \<times> val list \<times> int \<Rightarrow> bool" where
  "holes_inv b st = (case st of (qb, vals, counter) \<Rightarrow>
     count_list qb CHR ''$'' = length vals \<and>
     (b + int (length vals) \<le> MaxInt64 \<longrightarrow> dense qb (nat b) (nat (b + int (length vals)))))"

section \<open>Entities, options and the world outside the package\<close>

text \<open>
  Modelled from the spec: \<^verbatim>\<open>models.Options\<close> is declared in the godb module, which is
  not part of this repository.  The fields are the ones the specification lists,
  with the types the driver uses them at: \<^verbatim>\<open>Columns\<close> is a pointer to a slice, the
  last three fields are pointers, \<^verbatim>\<open>Limit\<close> and \<^verbatim>\<open>Offset\<close> are integers.
\<close>

record options =
  Columns :: "string list option"
  Limit :: int
  Offset :: int
  OrderColumn :: string
  OrderDir :: string
  Relations :: "string list"
  PrimaryKey :: "string option"
  InsertPrimaryKey :: "bool option"
  TimestampsFields :: "bool option"

text \<open>The zero value \<^verbatim>\<open>models.Options{}\<close>.\<close>

definition Options0 :: options where
  "Options0 = \<lparr>Columns = None, Limit = 0, Offset = 0, OrderColumn = '''', OrderDir = '''',
               Relations = [], PrimaryKey = None, InsertPrimaryKey = None,
               TimestampsFields = None\<rparr>"

text \<open>
  An entity is a struct that the loaders read and write by field name, through
  reflection.  The model keeps the column fields, by name, and the relation containers,
  by name; a container holds the child entities in order.  \<^verbatim>\<open>FieldByName\<close> is a lookup
  that may find nothing.  Which Go type a container has (slice, pointer to slice,
  pointer, interface, value) and whether the child's type fits it are not part of the
  model: a container that exists accepts the child.  So the model follows the loaders
  on entities whose containers are declared with the type of the children; what the
  loaders do with a container of another type (the errors \<^verbatim>\<open>cannot set container field\<close>,
  \<^verbatim>\<open>container field ... is not a slice\<close>, \<^verbatim>\<open>child type ... does not match ...\<close>, and
  the panics of \<^verbatim>\<open>reflect\<close>) is left out, and no theorem below is about such a container.
\<close>

datatype entity =
  Entity (fields: "(string \<times> val) list") (containers: "(string \<times> entity list) list")

definition FieldByName :: "entity \<Rightarrow> string \<Rightarrow> val option" where
  "FieldByName m name = map_of (fields m) name"

definition ContainerByName :: "entity \<Rightarrow> string \<Rightarrow> entity list option" where
  "ContainerByName m name = map_of (containers m) name"

definition set_container :: "entity \<Rightarrow> string \<Rightarrow> entity list \<Rightarrow> entity" where
  "set_container m name children = Entity (fields m) (AList.update name children (containers m))"

text \<open>
  The world outside the package: the SQL handle, the standard logger, the environment
  variable \<^verbatim>\<open>SQL_DEBUG\<close>, the clock, the UUID generator and the rendering of a value by
  \<^verbatim>\<open>fmt.Sprintf("%v", v)\<close>.  The database is an oracle: its answer to a statement may
  depend on every statement issued before.  \<open>issued\<close> records each statement sent to the
  SQL handle, the oldest first.
\<close>

type_synonym stmt = "string \<times> val list"

record world =
  issued :: "stmt list"
  logged :: "logline list"
  sql_debug :: bool
  clock :: nat
  uuid_count :: nat
  uuid_source :: "nat \<Rightarrow> error + string"
  on_query :: "stmt list \<Rightarrow> stmt \<Rightarrow> error + (val list list \<times> error option)"
  on_query_row :: "stmt list \<Rightarrow> stmt \<Rightarrow> error + val list"
  on_exec :: "stmt list \<Rightarrow> stmt \<Rightarrow> error + (error + int)"
  Sprintf_v :: "val \<Rightarrow> string"

text \<open>
  \<^verbatim>\<open>QueryContext\<close> answers with an error or with the rows and the error that
  \<^verbatim>\<open>rows.Err()\<close> reports after the last row; \<^verbatim>\<open>QueryRowContext\<close> with the row or the
  error that \<^verbatim>\<open>Scan\<close> will report; \<^verbatim>\<open>ExecContext\<close> with an error or with what
  \<^verbatim>\<open>RowsAffected()\<close> returns.
\<close>

definition QueryContext :: "string \<Rightarrow> val list \<Rightarrow> world \<Rightarrow> (error + (val list list \<times> error option)) \<times> world" where
  "QueryContext query args w =
     (on_query w (issued w) (query, args), w\<lparr>issued := issued w @ [(query, args)]\<rparr>)"

definition QueryRowContext :: "string \<Rightarrow> val list \<Rightarrow> world \<Rightarrow> (error + val list) \<times> world" where
  "QueryRowContext query args w =
     (on_query_row w (issued w) (query, args), w\<lparr>issued := issued w @ [(query, args)]\<rparr>)"

definition ExecContext :: "string \<Rightarrow> val list \<Rightarrow> world \<Rightarrow> (error + (error + int)) \<times> world" where
  "ExecContext query args w =
     (on_exec w (issued w) (query, args), w\<lparr>issued := issued w @ [(query, args)]\<rparr>)"

definition log_Println :: "logline \<Rightarrow> world \<Rightarrow> world" where
  "log_Println line w = w\<lparr>logged := logged w @ [line]\<rparr>"

text \<open>The two lines printed under \<^verbatim>\<open>SQL_DEBUG\<close>, with the label of the second.\<close>

definition debug_log :: "string \<Rightarrow> string \<Rightarrow> val list \<Rightarrow> world \<Rightarrow> world" where
  "debug_log query label args w =
     (if sql_debug w
      then log_Println [S label, Vs args] (log_Println [S ''SQL Query:'', S query] w)
      else w)"

definition time_Now :: "world \<Rightarrow> val \<times> world" where
  "time_Now w = (VTime (clock w), w\<lparr>clock := clock w + 1\<rparr>)"

definition uuid_NewV7 :: "world \<Rightarrow> (error + string) \<times> world" where
  "uuid_NewV7 w = (uuid_source w (uuid_count w), w\<lparr>uuid_count := uuid_count w + 1\<rparr>)"

section \<open>Repositories and relation loaders\<close>

text \<open>
  Modelled from the spec: the interface \<^verbatim>\<open>repository.Repository[C]\<close> is declared in the
  godb module.  A loader calls its \<^verbatim>\<open>Get\<close> and \<^verbatim>\<open>GetOne\<close> only; an interface value is
  the record of these methods.  \<^verbatim>\<open>GetOne\<close> also returns the caller's \<^verbatim>\<open>Options\<close> as the
  call leaves it (\<open>None\<close> for a \<^verbatim>\<open>nil\<close> pointer).
\<close>

record repository =
  repo_Get :: "group \<Rightarrow> options option \<Rightarrow> world \<Rightarrow> (error + entity list) \<times> world"
  repo_GetOne :: "group \<Rightarrow> options option \<Rightarrow> world \<Rightarrow> (error + entity) \<times> options option \<times> world"

text \<open>
  \<^verbatim>\<open>OnetoManyLoader\<close> and \<^verbatim>\<open>OnetoOneLoader\<close> have the same four fields;
  \<^verbatim>\<open>ManyToManyLoader\<close> has the pivot table.  Its field \<^verbatim>\<open>Connection any\<close> is used by one
  type assertion to \<^verbatim>\<open>*sql.DB\<close>: the model keeps whether the assertion holds.
\<close>

record fk_loader =
  Repository :: repository
  ParentField :: string
  ChildFkField :: string
  ContainerField :: string

record pivot_loader =
  PivotRepository :: repository
  ConnectionIsDB :: bool
  ParentKey :: string
  ChildKey :: string
  PivoteParentKey :: string
  PivoteChildKey :: string
  PivoteTable :: string
  PivotContainerField :: string

datatype loader =
    OnetoManyLoader fk_loader
  | ManyToManyLoader pivot_loader
  | OnetoOneLoader fk_loader

text \<open>
  \<^verbatim>\<open>Connection[T]\<close>.  The SQL handle \<^verbatim>\<open>Conn\<close> is the world.  \<open>ScanFields\<close> stands for
  the entity type \<^verbatim>\<open>T\<close>: what \<^verbatim>\<open>Scan\<close> makes of a row through the destinations that
  \<^verbatim>\<open>T.ScanFields()\<close> lists (with the nullable timestamps that \<^verbatim>\<open>scanRow\<close> stages).
  \<^verbatim>\<open>RelationLoaders\<close> may be a \<^verbatim>\<open>nil\<close> map.
\<close>

record connection =
  Table :: string
  OrderColumns :: "string \<rightharpoonup> string"
  SoftDelete :: "string option"
  RelationLoaders :: "(string \<rightharpoonup> loader) option"
  ScanFields :: "val list \<Rightarrow> error + entity"

definition scanRow :: "connection \<Rightarrow> error + val list \<Rightarrow> error + entity" where
  "scanRow c row =
     (case row of
        Inl err \<Rightarrow> Inl (Wrap ''failed to scan data'' err)
      | Inr r \<Rightarrow>
          (case ScanFields c r of
             Inl err \<Rightarrow> Inl (Wrap ''failed to scan data'' err)
           | Inr m \<Rightarrow> Inr m))"

text \<open>The loop over \<^verbatim>\<open>rows.Next()\<close>: the first row that does not scan ends the call.\<close>

fun scan_rows :: "connection \<Rightarrow> val list list \<Rightarrow> entity list \<Rightarrow> error + entity list" where
  "scan_rows c [] models = Inr models"
| "scan_rows c (r # rs) models =
     (case scanRow c (Inr r) of
        Inl err \<Rightarrow> Inl err
      | Inr m \<Rightarrow> scan_rows c rs (models @ [m]))"

section \<open>The three loaders\<close>

text \<open>The parents' key values, in order; a parent without the field ends the call.\<close>

fun parent_ids :: "string \<Rightarrow> string \<Rightarrow> entity list \<Rightarrow> val list \<Rightarrow> error + val list" where
  "parent_ids msg field [] ids = Inr ids"
| "parent_ids msg field (m # ms) ids =
     (case FieldByName m field of
        None \<Rightarrow> Inl (Errorf (msg @ field))
      | Some v \<Rightarrow> parent_ids msg field ms (ids @ [v]))"

text \<open>
  \<^verbatim>\<open>opts := models.Options{}\<close>, with \<^verbatim>\<open>Relations\<close> set when \<^verbatim>\<open>childs\<close> is not \<^verbatim>\<open>nil\<close>
  and not empty.
\<close>

definition child_options :: "string list option \<Rightarrow> options" where
  "child_options childs =
     (case childs of
        None \<Rightarrow> Options0
      | Some cs \<Rightarrow> if length cs > 0 then Options0\<lparr>Relations := cs\<rparr> else Options0)"

text \<open>
  The inner loop of \<^verbatim>\<open>OnetoManyLoader.Load\<close>: the child goes to the container of every
  parent whose key equals the child's foreign key.
\<close>

fun append_to_parents :: "fk_loader \<Rightarrow> entity \<Rightarrow> val \<Rightarrow> entity list \<Rightarrow> entity list \<Rightarrow> error + entity list" where
  "append_to_parents l child foreignKey [] done = Inr done"
| "append_to_parents l child foreignKey (parent # ps) done =
     (case FieldByName parent (ParentField l) of
        None \<Rightarrow> Inl (Errorf (''invalid parent field: '' @ ParentField l))
      | Some parentId \<Rightarrow>
          if foreignKey \<noteq> parentId then append_to_parents l child foreignKey ps (done @ [parent])
          else
            (case ContainerByName parent (ContainerField l) of
               None \<Rightarrow> Inl (Errorf (''invalid container field: '' @ ContainerField l))
             | Some cs \<Rightarrow>
                 append_to_parents l child foreignKey ps
                   (done @ [set_container parent (ContainerField l) (cs @ [child])])))"

text \<open>The outer loop, over the children that the child repository returned.\<close>

fun bind_children :: "fk_loader \<Rightarrow> entity list \<Rightarrow> entity list \<Rightarrow> error + entity list" where
  "bind_children l [] parents = Inr parents"
| "bind_children l (child # cs) parents =
     (case prepareForeignKey (ChildFkField l) of
        Inl err \<Rightarrow> Inl err
      | Inr foreignKeyTmp \<Rightarrow>
          (case FieldByName child foreignKeyTmp of
             None \<Rightarrow> Inl (Errorf (''invalid child foreign key field: '' @ foreignKeyTmp @ '', ''
                                    @ ChildFkField l))
           | Some foreignKey \<Rightarrow>
               (case append_to_parents l child foreignKey parents [] of
                  Inl err \<Rightarrow> Inl err
                | Inr parents' \<Rightarrow> bind_children l cs parents')))"

text \<open>
  \<^verbatim>\<open>Load\<close> returns an error or \<^verbatim>\<open>nil\<close>; the parents are filled in place, through the
  pointers the caller passed.  The model returns the parents as the call leaves them;
  when \<^verbatim>\<open>Load\<close> fails its caller \<^verbatim>\<open>Get\<close> drops the models, so a failed call returns the
  error only.
\<close>

definition OnetoManyLoader_Load :: "fk_loader \<Rightarrow> entity list \<Rightarrow> string list option \<Rightarrow> world
    \<Rightarrow> (error + entity list) \<times> world" where
  "OnetoManyLoader_Load l parentModels childs w =
     (if length parentModels = 0 then (Inr parentModels, w)
      else
        (case parent_ids ''invalid parent field: '' (ParentField l) parentModels [] of
           Inl err \<Rightarrow> (Inl err, w)
         | Inr parentIds \<Rightarrow>
             (case repo_Get (Repository l)
                     (GroupFilter [FilterMultipleValue (ChildFkField l) parentIds (Some ComparatorIn)] '''')
                     (Some (child_options childs)) w of
                (Inl err, w') \<Rightarrow> (Inl (Wrap ''failed to get child models'' err), w')
              | (Inr allChildrens, w') \<Rightarrow> (bind_children l allChildrens parentModels, w'))))"

definition OnetoOneLoader_Load :: "fk_loader \<Rightarrow> entity list \<Rightarrow> string list option \<Rightarrow> world
    \<Rightarrow> (error + entity list) \<times> world" where
  "OnetoOneLoader_Load l parentModel childs w =
     (case parentModel of
        [] \<Rightarrow> (Inr parentModel, w)
      | first # others \<Rightarrow>
          (case FieldByName first (ParentField l) of
             None \<Rightarrow> (Inl (Errorf (''invalid parent field: '' @ ParentField l)), w)
           | Some parentId \<Rightarrow>
               (case repo_GetOne (Repository l)
                       (GroupFilter [Filter (ChildFkField l) parentId None None] '''')
                       (Some (child_options childs)) w of
                  (Inl err, opts', w') \<Rightarrow> (Inl (Wrap ''failed to load child model'' err), w')
                | (Inr childModel, opts', w') \<Rightarrow>
                    (case ContainerByName first (ContainerField l) of
                       None \<Rightarrow> (Inl (Errorf (''invalid container field: '' @ ContainerField l)), w')
                     | Some cs \<Rightarrow>
                         (Inr (set_container first (ContainerField l) [childModel] # others), w')))))"

text \<open>The pivot query of \<^verbatim>\<open>ManyToManyLoader.Load\<close>: one placeholder per parent.\<close>

fun pivot_placeholders :: "nat \<Rightarrow> nat \<Rightarrow> string" where
  "pivot_placeholders i 0 = []"
| "pivot_placeholders i (Suc n) =
     (if i > 0 then '', '' else []) @ ''$'' @ fmt_d (wrap_int (int i + 1))
       @ pivot_placeholders (Suc i) n"

definition pivot_query :: "pivot_loader \<Rightarrow> nat \<Rightarrow> string" where
  "pivot_query m n =
     ''SELECT '' @ PivoteParentKey m @ '', '' @ PivoteChildKey m @ '' FROM '' @ PivoteTable m
       @ '' WHERE '' @ PivoteParentKey m @ '' IN ('' @ pivot_placeholders 0 n @ '')''"

text \<open>
  The loop over the pivot rows; a row scans into two values.  The state is
  \<^verbatim>\<open>listChildForParent\<close> (child id to parent ids) and \<^verbatim>\<open>listAllChildIds\<close>.
\<close>

fun pivot_rows :: "val list list \<Rightarrow> (val \<times> val list) list \<times> val list
    \<Rightarrow> error + ((val \<times> val list) list \<times> val list)" where
  "pivot_rows [] st = Inr st"
| "pivot_rows (r # rs) (listChildForParent, listAllChildIds) =
     (case r of
        [parentId, childId] \<Rightarrow>
          pivot_rows rs
            (AList.update childId
               ((case map_of listChildForParent childId of None \<Rightarrow> [] | Some ps \<Rightarrow> ps) @ [parentId])
               listChildForParent,
             listAllChildIds @ [childId])
      | _ \<Rightarrow> Inl (Wrap ''failed to scan pivot row'' (Driver ''sql: expected 2 destination arguments in Scan'')))"

text \<open>One child goes to the list of every parent id the pivot names, keyed by its text.\<close>

fun group_child :: "(val \<Rightarrow> string) \<Rightarrow> entity \<Rightarrow> val list \<Rightarrow> (string \<times> entity list) list
    \<Rightarrow> (string \<times> entity list) list" where
  "group_child show child [] final = final"
| "group_child show child (parentId # ps) final =
     group_child show child ps
       (AList.update (show parentId)
          ((case map_of final (show parentId) of None \<Rightarrow> [] | Some cs \<Rightarrow> cs) @ [child]) final)"

fun group_children :: "pivot_loader \<Rightarrow> (val \<times> val list) list \<Rightarrow> entity list
    \<Rightarrow> (string \<times> entity list) list \<Rightarrow> world \<Rightarrow> (error + (string \<times> entity list) list) \<times> world" where
  "group_children m listChildForParent [] final w = (Inr final, w)"
| "group_children m listChildForParent (child # cs) final w =
     (case FieldByName child (ChildKey m) of
        None \<Rightarrow> (Inl (Errorf (''invalid child key field: '' @ ChildKey m)), w)
      | Some childKeyValue \<Rightarrow>
          (case map_of listChildForParent childKeyValue of
             None \<Rightarrow>
               group_children m listChildForParent cs final
                 (log_Println [S ''No parent IDs found for child key value:'', Vs [childKeyValue]] w)
           | Some parentIdsForChild \<Rightarrow>
               group_children m listChildForParent cs
                 (group_child (Sprintf_v w) child parentIdsForChild final) w))"

text \<open>The last loop: a parent that has children gets its container replaced by them.\<close>

fun assign_children :: "(val \<Rightarrow> string) \<Rightarrow> pivot_loader \<Rightarrow> (string \<times> entity list) list \<Rightarrow> entity list
    \<Rightarrow> entity list \<Rightarrow> error + entity list" where
  "assign_children show m final [] done = Inr done"
| "assign_children show m final (parent # ps) done =
     (case FieldByName parent (ParentKey m) of
        None \<Rightarrow> Inl (Errorf (''invalid parent key field: '' @ ParentKey m))
      | Some parentId \<Rightarrow>
          (case map_of final (show parentId) of
             None \<Rightarrow> assign_children show m final ps (done @ [parent])
           | Some childs \<Rightarrow>
               (case ContainerByName parent (PivotContainerField m) of
                  None \<Rightarrow> Inl (Errorf (''invalid container field: '' @ PivotContainerField m))
                | Some cs \<Rightarrow>
                    assign_children show m final ps
                      (done @ [set_container parent (PivotContainerField m) childs]))))"

definition ManyToManyLoader_Load :: "pivot_loader \<Rightarrow> entity list \<Rightarrow> string list option \<Rightarrow> world
    \<Rightarrow> (error + entity list) \<times> world" where
  "ManyToManyLoader_Load m parentModels childs w =
     (if length parentModels = 0 then (Inr parentModels, w)
      else
        (case parent_ids ''invalid parent key field: '' (ParentKey m) parentModels [] of
           Inl err \<Rightarrow> (Inl err, w)
         | Inr parentModelsIds \<Rightarrow>
             (let query = pivot_query m (length parentModelsIds);
                  w1 = debug_log query ''SQL Values:'' parentModelsIds w
              in if \<not> ConnectionIsDB m
                 then (Inl (Errorf ''failed to assert connection to *sql.DB''), w1)
                 else
                   (case QueryContext query parentModelsIds w1 of
                      (Inl err, w2) \<Rightarrow> (Inl (Wrap ''failed to query pivot table'' err), w2)
                    | (Inr (rows, rows_err), w2) \<Rightarrow>
                        (case pivot_rows rows ([], []) of
                           Inl err \<Rightarrow> (Inl err, w2)
                         | Inr (listChildForParent, listAllChildIds) \<Rightarrow>
                             (case repo_Get (PivotRepository m)
                                     (GroupFilter [FilterMultipleValue (ChildKey m) listAllChildIds
                                                     (Some ComparatorIn)] '''')
                                     (Some (child_options childs)) w2 of
                                (Inl err, w3) \<Rightarrow> (Inl (Wrap ''failed to get child models'' err), w3)
                              | (Inr allChildren, w3) \<Rightarrow>
                                  (case group_children m listChildForParent allChildren [] w3 of
                                     (Inl err, w4) \<Rightarrow> (Inl err, w4)
                                   | (Inr final, w4) \<Rightarrow>
                                       (assign_children (Sprintf_v w4) m final parentModels [], w4))))))))"

text \<open>The dispatch of the interface method \<^verbatim>\<open>Load\<close> on the loader's type.\<close>

fun Load :: "loader \<Rightarrow> entity list \<Rightarrow> string list option \<Rightarrow> world \<Rightarrow> (error + entity list) \<times> world" where
  "Load (OnetoManyLoader l) = OnetoManyLoader_Load l"
| "Load (ManyToManyLoader m) = ManyToManyLoader_Load m"
| "Load (OnetoOneLoader l) = OnetoOneLoader_Load l"

section \<open>The CRUD operations of \<^verbatim>\<open>Connection[T]\<close>\<close>

text \<open>The soft-delete rewrite at the head of \<^verbatim>\<open>Get\<close>, \<^verbatim>\<open>Update\<close> and \<^verbatim>\<open>Count\<close>.\<close>

definition soft_delete_filters :: "connection \<Rightarrow> group \<Rightarrow> group" where
  "soft_delete_filters c filters =
     (if SoftDelete c \<noteq> None \<and> SoftDelete c \<noteq> Some ''''
      then prepareSoftDelete (SoftDelete c) filters else filters)"

text \<open>
  \<^verbatim>\<open>strings.ToUpper(s) == "DESC"\<close>.  Besides the ASCII letters, the long s (U+017F, the
  bytes \<open>C5 BF\<close>) has the upper case \<^verbatim>\<open>S\<close>.
\<close>

definition ToUpper_is_DESC :: "string \<Rightarrow> bool" where
  "ToUpper_is_DESC s =
     (case s of
        [d, e, x, c] \<Rightarrow> d \<in> set ''dD'' \<and> e \<in> set ''eE'' \<and> x \<in> set ''sS'' \<and> c \<in> set ''cC''
      | [d, e, x1, x2, c] \<Rightarrow>
          d \<in> set ''dD'' \<and> e \<in> set ''eE'' \<and> x1 = CHR 0xC5 \<and> x2 = CHR 0xBF \<and> c \<in> set ''cC''
      | _ \<Rightarrow> False)"

text \<open>
  The part of \<^verbatim>\<open>Get\<close> under \<^verbatim>\<open>if opts != nil\<close>: the text that follows the
  \<^verbatim>\<open>WHERE\<close> clause, or the error for an order column that is not allowed.
\<close>

definition order_limit :: "connection \<Rightarrow> options option \<Rightarrow> error + string" where
  "order_limit c opts =
     (case opts of
        None \<Rightarrow> Inr ''''
      | Some opt \<Rightarrow>
          (let orderDir = (if ToUpper_is_DESC (OrderDir opt) then ''DESC'' else ''ASC'');
               limit = (if Limit opt > 0 then '' LIMIT '' @ fmt_d (Limit opt) else '''');
               offset = (if Offset opt > 0 then '' OFFSET '' @ fmt_d (Offset opt) else '''')
           in if OrderColumn opt \<noteq> '''' then
                (case OrderColumns c (OrderColumn opt) of
                   None \<Rightarrow> Inl (Errorf (''invalid order column: '' @ OrderColumn opt))
                 | Some x \<Rightarrow> Inr ('' ORDER BY '' @ OrderColumn opt @ '' '' @ orderDir @ limit @ offset))
              else Inr (limit @ offset)))"

text \<open>
  One entry of \<^verbatim>\<open>opts.Relations\<close>: the relation name and the \<^verbatim>\<open>childs\<close> handed to its
  loader.
\<close>

definition split_relation :: "string \<Rightarrow> string \<times> string list" where
  "split_relation relation =
     (if strings_Contains relation CHR ''.''
      then (let tmp_items = strings_Split relation CHR ''.'' in (hd tmp_items, tl tmp_items))
      else (relation, []))"

text \<open>The loop of \<^verbatim>\<open>Get\<close> over \<^verbatim>\<open>opts.Relations\<close>.\<close>

fun load_relations :: "(string \<rightharpoonup> loader) \<Rightarrow> string list \<Rightarrow> entity list \<Rightarrow> world
    \<Rightarrow> (error + entity list) \<times> world" where
  "load_relations loaders [] models w = (Inr models, w)"
| "load_relations loaders (relation # rest) models w =
     (case split_relation relation of
        (name, childs) \<Rightarrow>
          (case loaders name of
             None \<Rightarrow> (Inl (Errorf (''relation loader not found for relation: '' @ name)), w)
           | Some loader \<Rightarrow>
               (case Load loader models (Some childs) w of
                  (Inl err, w') \<Rightarrow> (Inl (Wrap (''failed to load relation '' @ name) err), w')
                | (Inr models', w') \<Rightarrow> load_relations loaders rest models' w')))"

text \<open>
  The statement that \<^verbatim>\<open>Get\<close> builds from the compiled filter and the options, or
  the error for the order column.
\<close>

definition select_statement :: "connection \<Rightarrow> options option \<Rightarrow> string \<Rightarrow> val list \<Rightarrow> error + stmt" where
  "select_statement c opts allFilters allVals =
     (let cols = (case opts of
                    None \<Rightarrow> ''*''
                  | Some opt \<Rightarrow> (case Columns opt of None \<Rightarrow> ''*'' | Some cs \<Rightarrow> strings_Join cs '', ''));
          select = ''SELECT '' @ cols @ '' FROM '' @ Table c
                     @ (if allFilters \<noteq> '''' then '' WHERE '' @ allFilters else '''');
          args = (if allFilters \<noteq> '''' then allVals else [])
      in case order_limit c opts of
           Inl err \<Rightarrow> Inl err
         | Inr clauses \<Rightarrow> Inr (select @ clauses, args))"

definition Get :: "connection \<Rightarrow> group \<Rightarrow> options option \<Rightarrow> world \<Rightarrow> (error + entity list) \<times> world" where
  "Get c filters opts w =
     (case prepareFilters (soft_delete_filters c filters) 1 of
        (allFilters, allVals, counter, lg) \<Rightarrow>
          (let w1 = w\<lparr>logged := logged w @ lg\<rparr> in
           case select_statement c opts allFilters allVals of
             Inl err \<Rightarrow> (Inl err, w1)
           | Inr (query, args) \<Rightarrow>
               (case QueryContext query args (debug_log query ''SQL Args:'' args w1) of
                  (Inl err, w2) \<Rightarrow>
                    (Inl (if errors_Is_ErrNoRows err then ErrNoDocumentsFound else err), w2)
                | (Inr (rows, rows_err), w2) \<Rightarrow>
                    (case scan_rows c rows [] of
                       Inl err \<Rightarrow> (Inl err, w2)
                     | Inr models \<Rightarrow>
                         (case rows_err of
                            Some err \<Rightarrow> (Inl (Wrap ''rows error'' err), w2)
                          | None \<Rightarrow>
                              (case (opts, RelationLoaders c) of
                                 (Some opt, Some loaders) \<Rightarrow>
                                   if length (Relations opt) > 0
                                   then load_relations loaders (Relations opt) models w2
                                   else (Inr models, w2)
                               | _ \<Rightarrow> (Inr models, w2)))))))"

text \<open>The statement that \<^verbatim>\<open>Get\<close> sends first, as a function of its arguments.\<close>

definition primary_query :: "connection \<Rightarrow> group \<Rightarrow> options option \<Rightarrow> error + stmt" where
  "primary_query c filters opts =
     (case prepareFilters (soft_delete_filters c filters) 1 of
        (allFilters, allVals, counter, lg) \<Rightarrow> select_statement c opts allFilters allVals)"

text \<open>
  \<^verbatim>\<open>GetOne\<close> writes \<^verbatim>\<open>Limit = 1\<close> through the caller's pointer, or makes its own
  \<^verbatim>\<open>Options\<close> for a \<^verbatim>\<open>nil\<close> pointer.  The second component of the result is the
  caller's \<^verbatim>\<open>Options\<close> after the call.
\<close>

definition GetOne :: "connection \<Rightarrow> group \<Rightarrow> options option \<Rightarrow> world
    \<Rightarrow> (error + entity) \<times> options option \<times> world" where
  "GetOne c filters opts w =
     (let opts' = (case opts of None \<Rightarrow> Options0\<lparr>Limit := 1\<rparr> | Some opt \<Rightarrow> opt\<lparr>Limit := 1\<rparr>);
          caller = (case opts of None \<Rightarrow> None | Some opt \<Rightarrow> Some opts')
      in case Get c filters (Some opts') w of
           (Inl err, w') \<Rightarrow> (Inl err, caller, w')
         | (Inr rows, w') \<Rightarrow>
             (if length rows = 0 then Inl ErrNoDocumentsFound else Inr (hd rows), caller, w'))"

text \<open>A connection as a value of the interface \<^verbatim>\<open>repository.Repository\<close>.\<close>

definition as_repository :: "connection \<Rightarrow> repository" where
  "as_repository c = \<lparr>repo_Get = Get c, repo_GetOne = GetOne c\<rparr>"

text \<open>
  A Go map is an association list with distinct keys; the order of the list stands for
  the order in which \<^verbatim>\<open>range\<close> happens to visit the map.  A map argument may be the
  \<^verbatim>\<open>nil\<close> map (\<open>None\<close>): \<^verbatim>\<open>delete\<close> and \<^verbatim>\<open>range\<close> take it for an empty map, and
  an assignment \<^verbatim>\<open>m[k] = v\<close> to it panics.
\<close>

type_synonym payload = "(string \<times> val) list"

definition map_assign :: "string \<Rightarrow> val \<Rightarrow> payload option \<Rightarrow> error + payload option" where
  "map_assign k v m =
     (case m of
        None \<Rightarrow> Inl (Panic ''assignment to entry in nil map'')
      | Some al \<Rightarrow> Inr (Some (AList.update k v al)))"

definition map_delete :: "string \<Rightarrow> payload option \<Rightarrow> payload option" where
  "map_delete k m = (case m of None \<Rightarrow> None | Some al \<Rightarrow> Some (AList.delete k al))"

definition map_range :: "payload option \<Rightarrow> payload" where
  "map_range m = (case m of None \<Rightarrow> [] | Some al \<Rightarrow> al)"

text \<open>
  The loop of \<^verbatim>\<open>Create\<close> over the map, with the state (columns, values, placeholders,
  numItems); the list of placeholders is called \<open>holders\<close>.
\<close>

fun insert_loop :: "payload \<Rightarrow> string list \<times> val list \<times> string list \<times> int
    \<Rightarrow> string list \<times> val list \<times> string list \<times> int" where
  "insert_loop [] st = st"
| "insert_loop ((k, v) # kvs) (columns, values, holders, numItems) =
     insert_loop kvs (columns @ [k], values @ [v], holders @ [''$'' @ fmt_d numItems],
        wrap_int (numItems + 1))"

text \<open>
  The three blocks of \<^verbatim>\<open>Create\<close> that fill the \<^verbatim>\<open>nil\<close> fields \<^verbatim>\<open>PrimaryKey\<close>,
  \<^verbatim>\<open>InsertPrimaryKey\<close> and \<^verbatim>\<open>TimestampsFields\<close> of the options with \<^verbatim>\<open>"id"\<close>,
  \<^verbatim>\<open>true\<close> and \<^verbatim>\<open>true\<close>.
\<close>

definition default_options :: "options \<Rightarrow> options" where
  "default_options opt0 =
     (let opt1 = (if PrimaryKey opt0 = None then opt0\<lparr>PrimaryKey := Some ''id''\<rparr> else opt0);
          opt2 = (if InsertPrimaryKey opt1 = None then opt1\<lparr>InsertPrimaryKey := Some True\<rparr> else opt1);
          opt3 = (if TimestampsFields opt2 = None then opt2\<lparr>TimestampsFields := Some True\<rparr> else opt2)
      in opt3)"

text \<open>The two timestamps of \<^verbatim>\<open>Create\<close>, written after the clock is read.\<close>

definition stamp_created :: "val \<Rightarrow> payload option \<Rightarrow> error + payload option" where
  "stamp_created now m =
     (case map_assign ''created_at'' now m of
        Inl panic \<Rightarrow> Inl panic
      | Inr m' \<Rightarrow> map_assign ''updated_at'' now m')"

text \<open>
  \<^verbatim>\<open>Create\<close> fills the default options through the caller's pointer (or in an
  \<^verbatim>\<open>Options\<close> of its own for a \<^verbatim>\<open>nil\<close> pointer) and writes the key and the timestamps
  into the caller's map.  The result carries the caller's map and the caller's
  \<^verbatim>\<open>Options\<close> after the call.
\<close>

definition Create :: "connection \<Rightarrow> payload option \<Rightarrow> options option \<Rightarrow> world
    \<Rightarrow> (error + entity) \<times> payload option \<times> options option \<times> world" where
  "Create c data opts w =
     (case uuid_NewV7 w of
        (Inl err, w1) \<Rightarrow> (Inl err, data, opts, w1)
      | (Inr newUuid, w1) \<Rightarrow>
          (let opts' = default_options (case opts of None \<Rightarrow> Options0 | Some opt \<Rightarrow> opt);
               caller = (case opts of None \<Rightarrow> None | Some opt \<Rightarrow> Some opts')
           in case (if InsertPrimaryKey opts' = Some True
                    then map_assign (the (PrimaryKey opts')) (VStr newUuid) data else Inr data) of
                Inl panic \<Rightarrow> (Inl panic, data, caller, w1)
              | Inr data1 \<Rightarrow>
                  (case (if TimestampsFields opts' = Some True
                         then (case time_Now w1 of (now, w2) \<Rightarrow> (stamp_created now data1, w2))
                         else (Inr data1, w1)) of
                     (Inl panic, w2) \<Rightarrow> (Inl panic, data1, caller, w2)
                   | (Inr data2, w2) \<Rightarrow>
                       (case insert_loop (map_range data2) ([], [], [], 1) of
                          (columns, values, holders, numItems) \<Rightarrow>
                            (let query = ''INSERT INTO '' @ Table c @ '' ('' @ strings_Join columns '', ''
                                           @ '') VALUES ('' @ strings_Join holders '', ''
                                           @ '') RETURNING *''
                             in case QueryRowContext query values
                                       (debug_log query ''SQL Values:'' values w2) of
                                  (row, w3) \<Rightarrow> (scanRow c row, data2, caller, w3))))))"

text \<open>The loop of \<^verbatim>\<open>Update\<close> over the map, with the state (setParts, vals, items).\<close>

fun set_loop :: "payload \<Rightarrow> string list \<times> val list \<times> int \<Rightarrow> string list \<times> val list \<times> int" where
  "set_loop [] st = st"
| "set_loop ((k, v) # kvs) (setParts, vals, items) =
     set_loop kvs (setParts @ [k @ '' = $'' @ fmt_d items], vals @ [v], wrap_int (items + 1))"

text \<open>
  \<^verbatim>\<open>Update\<close>; the second component of the result is the caller's map after the call.
  The row is read back with the filters that were already rewritten.
\<close>

definition Update :: "connection \<Rightarrow> group \<Rightarrow> payload option \<Rightarrow> world
    \<Rightarrow> (error + entity) \<times> payload option \<times> world" where
  "Update c filters0 data w =
     (let filters = soft_delete_filters c filters0 in
      case time_Now w of
        (now, w1) \<Rightarrow>
          (case map_assign ''updated_at'' now (map_delete ''created_at'' (map_delete ''id'' data)) of
             Inl panic \<Rightarrow> (Inl panic, map_delete ''created_at'' (map_delete ''id'' data), w1)
           | Inr data' \<Rightarrow>
               (case set_loop (map_range data') ([], [], 1) of
                  (setParts, vals, items) \<Rightarrow>
                    (case prepareFilters filters items of
                       (allFilters, allVals, counter, lg) \<Rightarrow>
                         (let w2 = w1\<lparr>logged := logged w1 @ lg\<rparr>;
                              query = ''UPDATE '' @ Table c @ '' SET '' @ strings_Join setParts '', ''
                                        @ (if allFilters \<noteq> '''' then '' WHERE '' @ allFilters else '''');
                              vals' = (if allFilters \<noteq> '''' then vals @ allVals else vals)
                          in case ExecContext query vals' (debug_log query ''SQL Values:'' vals' w2) of
                               (Inl err, w3) \<Rightarrow>
                                 (Inl (if errors_Is_ErrNoRows err then ErrNoDocumentsFound else err),
                                  data', w3)
                             | (Inr res, w3) \<Rightarrow>
                                 (case GetOne c filters None w3 of
                                    (result, opts', w4) \<Rightarrow> (result, data', w4)))))))"


text \<open>\<^verbatim>\<open>Count\<close> scans the one column of the one row into an \<^verbatim>\<open>int64\<close>.\<close>

definition Count :: "connection \<Rightarrow> group \<Rightarrow> world \<Rightarrow> (error + int) \<times> world" where
  "Count c filters w =
     (case prepareFilters (soft_delete_filters c filters) 1 of
        (allFilters, allVals, counter, lg) \<Rightarrow>
          (let w1 = w\<lparr>logged := logged w @ lg\<rparr>;
               query = ''SELECT COUNT(*) FROM '' @ Table c
                         @ (if allFilters \<noteq> '''' then '' WHERE '' @ allFilters else '''');
               args = (if allFilters \<noteq> '''' then allVals else [])
           in case QueryRowContext query args (debug_log query ''SQL Args:'' args w1) of
                (Inl err, w2) \<Rightarrow> (Inl err, w2)
              | (Inr [VInt count], w2) \<Rightarrow> (Inr count, w2)
              | (Inr row, w2) \<Rightarrow> (Inl (Driver ''sql: Scan error''), w2)))"

section \<open>Example repositories and worlds\<close>

text \<open>
  A world in which nothing has happened yet and the database is empty: a query finds no
  row, a single-row query reports no rows, a statement affects no row.
\<close>

definition quiet_world :: world where
  "quiet_world =
     \<lparr>issued = [], logged = [], sql_debug = False, clock = 0, uuid_count = 0,
      uuid_source = (\<lambda>n. Inr ''0192f3a0-0000-7000-8000-000000000000''),
      on_query = (\<lambda>h q. Inr ([], None)),
      on_query_row = (\<lambda>h q. Inl ErrNoRows),
      on_exec = (\<lambda>h q. Inr (Inr 0)),
      Sprintf_v = (\<lambda>v. case v of VStr s \<Rightarrow> s | VInt i \<Rightarrow> fmt_d i | VGoInt i \<Rightarrow> fmt_d i
                         | x \<Rightarrow> ''?'')\<rparr>"

text \<open>A repository on table \<^verbatim>\<open>t\<close> that may be ordered by \<^verbatim>\<open>id\<close> only.\<close>

definition table_t :: connection where
  "table_t =
     \<lparr>Table = ''t'', OrderColumns = [''id'' \<mapsto> ''''], SoftDelete = None,
      RelationLoaders = None,
      ScanFields = (\<lambda>r. Inr (Entity (zip [''Id'', ''Name''] r) []))\<rparr>"

text \<open>
  The chain of the README: a session has one user, a user has many roles through
  \<^verbatim>\<open>roles_users\<close>, a role has many permissions through \<^verbatim>\<open>permissions_roles\<close>.  The
  structs declare their keys as \<^verbatim>\<open>int64\<close>, the type the driver delivers, and their
  containers with the type of the children.
\<close>

definition permissions_repo :: connection where
  "permissions_repo =
     \<lparr>Table = ''permissions'', OrderColumns = Map.empty, SoftDelete = None,
      RelationLoaders = None,
      ScanFields = (\<lambda>r. Inr (Entity (zip [''Id'', ''Name''] r) []))\<rparr>"

definition roles_repo :: connection where
  "roles_repo =
     \<lparr>Table = ''roles'', OrderColumns = Map.empty, SoftDelete = None,
      RelationLoaders = Some [''permissions'' \<mapsto> ManyToManyLoader
        \<lparr>PivotRepository = as_repository permissions_repo, ConnectionIsDB = True,
         ParentKey = ''Id'', ChildKey = ''Id'', PivoteParentKey = ''role_id'',
         PivoteChildKey = ''permission_id'', PivoteTable = ''permissions_roles'',
         PivotContainerField = ''Permissions''\<rparr>],
      ScanFields = (\<lambda>r. Inr (Entity (zip [''Id'', ''Name''] r) [(''Permissions'', [])]))\<rparr>"

definition users_repo :: connection where
  "users_repo =
     \<lparr>Table = ''users'', OrderColumns = Map.empty, SoftDelete = None,
      RelationLoaders = Some [''roles'' \<mapsto> ManyToManyLoader
        \<lparr>PivotRepository = as_repository roles_repo, ConnectionIsDB = True,
         ParentKey = ''Id'', ChildKey = ''Id'', PivoteParentKey = ''user_id'',
         PivoteChildKey = ''role_id'', PivoteTable = ''roles_users'',
         PivotContainerField = ''Roles''\<rparr>],
      ScanFields = (\<lambda>r. Inr (Entity (zip [''Id'', ''Name''] r) [(''Roles'', [])]))\<rparr>"

definition sessions_repo :: connection where
  "sessions_repo =
     \<lparr>Table = ''sessions'', OrderColumns = Map.empty, SoftDelete = None,
      RelationLoaders = Some [''user'' \<mapsto> OnetoOneLoader
        \<lparr>Repository = as_repository users_repo, ParentField = ''UserId'',
         ChildFkField = ''id'', ContainerField = ''User''\<rparr>],
      ScanFields = (\<lambda>r. Inr (Entity (zip [''Id'', ''UserId''] r) [(''User'', [])]))\<rparr>"

text \<open>
  A database with session 1 of user 7, who has role 3, which has permission 9; it
  answers by the table a statement reads.
\<close>

definition chain_db :: "stmt list \<Rightarrow> stmt \<Rightarrow> error + (val list list \<times> error option)" where
  "chain_db h stmt =
     (if prefix ''SELECT * FROM sessions'' (fst stmt) then Inr ([[VInt 1, VInt 7]], None)
      else if prefix ''SELECT * FROM users'' (fst stmt) then Inr ([[VInt 7, VStr ''ann'']], None)
      else if prefix ''SELECT user_id, role_id FROM roles_users'' (fst stmt)
        then Inr ([[VInt 7, VInt 3]], None)
      else if prefix ''SELECT * FROM roles'' (fst stmt) then Inr ([[VInt 3, VStr ''admin'']], None)
      else if prefix ''SELECT role_id, permission_id FROM permissions_roles'' (fst stmt)
        then Inr ([[VInt 3, VInt 9]], None)
      else if prefix ''SELECT * FROM permissions'' (fst stmt) then Inr ([[VInt 9, VStr ''write'']], None)
      else Inr ([], None))"

definition chain_world :: world where
  "chain_world = quiet_world\<lparr>on_query := chain_db\<rparr>"










text \<open>
  A post has many tags through \<^verbatim>\<open>posts_tags\<close>.  Both structs declare their key as
  \<^verbatim>\<open>Id int\<close>, so \<^verbatim>\<open>Scan\<close> converts the \<^verbatim>\<open>int64\<close> of the driver to an \<^verbatim>\<open>int\<close>, while
  the pivot rows are scanned into \<^verbatim>\<open>any\<close> and keep the \<^verbatim>\<open>int64\<close>.  The database holds
  post 1 with tag 5.
\<close>

definition scan_int_key :: "string list \<Rightarrow> val list \<Rightarrow> error + entity" where
  "scan_int_key names r =
     (case r of
        [VInt i, name] \<Rightarrow>
          Inr (Entity [(''Id'', VGoInt i), (''Name'', name)] (map (\<lambda>c. (c, [])) names))
      | _ \<Rightarrow> Inl (Driver ''sql: Scan error''))"

definition tags_repo :: connection where
  "tags_repo =
     \<lparr>Table = ''tags'', OrderColumns = Map.empty, SoftDelete = None,
      RelationLoaders = None, ScanFields = scan_int_key []\<rparr>"

definition tags_loader :: pivot_loader where
  "tags_loader =
     \<lparr>PivotRepository = as_repository tags_repo, ConnectionIsDB = True,
      ParentKey = ''Id'', ChildKey = ''Id'', PivoteParentKey = ''post_id'',
      PivoteChildKey = ''tag_id'', PivoteTable = ''posts_tags'',
      PivotContainerField = ''Tags''\<rparr>"

definition tags_db :: "stmt list \<Rightarrow> stmt \<Rightarrow> error + (val list list \<times> error option)" where
  "tags_db h stmt =
     (if prefix ''SELECT post_id, tag_id FROM posts_tags'' (fst stmt)
        then Inr ([[VInt 1, VInt 5]], None)
      else if prefix ''SELECT * FROM tags'' (fst stmt) then Inr ([[VInt 5, VStr ''go'']], None)
      else Inr ([], None))"

definition tags_world :: world where
  "tags_world = quiet_world\<lparr>on_query := tags_db\<rparr>"

section \<open>Properties of the string helpers\<close>

lemma strings_Split_nonempty: "strings_Split s c \<noteq> []"
  by (induction s) (auto split: list.splits)

lemma strings_Split_Cons:
  "strings_Split (x # xs) c =
     (if x = c then [] # strings_Split xs c
      else (x # hd (strings_Split xs c)) # tl (strings_Split xs c))"
  using strings_Split_nonempty [of xs c] by (cases "strings_Split xs c") simp_all

lemma hd_strings_Split: "hd (strings_Split s c) = [] \<longleftrightarrow> s = [] \<or> hd s = c"
  by (cases s) (auto simp: strings_Split_Cons simp del: strings_Split.simps(2))

lemma adjacent_iff: "adjacent c s \<longleftrightarrow> (\<exists>u v. s = u @ [c, c] @ v)"
proof (induction c s rule: adjacent.induct)
  case (1 c x y zs)
  show ?case
  proof
    assume "adjacent c (x # y # zs)"
    then consider "x = c \<and> y = c" | "adjacent c (y # zs)" by auto
    then show "\<exists>u v. x # y # zs = u @ [c, c] @ v"
    proof cases
      case 1
      then have "x # y # zs = [] @ [c, c] @ zs" by simp
      then show ?thesis by blast
    next
      case 2
      with 1 obtain u v where "y # zs = u @ [c, c] @ v" by auto
      then have "x # y # zs = (x # u) @ [c, c] @ v" by simp
      then show ?thesis by blast
    qed
  next
    assume "\<exists>u v. x # y # zs = u @ [c, c] @ v"
    then obtain u v where uv: "x # y # zs = u @ [c, c] @ v" by blast
    show "adjacent c (x # y # zs)"
    proof (cases u)
      case Nil
      with uv show ?thesis by simp
    next
      case (Cons a u')
      with uv have "y # zs = u' @ [c, c] @ v" by simp
      then have "adjacent c (y # zs)" using 1 by blast
      then show ?thesis by simp
    qed
  qed
qed (auto simp: append_eq_Cons_conv)

lemma tl_strings_Split:
  "[] \<in> set (tl (strings_Split s c)) \<longleftrightarrow> (s \<noteq> [] \<and> last s = c) \<or> adjacent c s"
proof (induction s)
  case Nil
  show ?case by simp
next
  case (Cons x xs)
  have ne: "strings_Split xs c \<noteq> []" by (rule strings_Split_nonempty)
  show ?case
  proof (cases "x = c")
    case True
    have "[] \<in> set (strings_Split xs c) \<longleftrightarrow>
            hd (strings_Split xs c) = [] \<or> [] \<in> set (tl (strings_Split xs c))"
      using ne by (cases "strings_Split xs c") auto
    with True Cons show ?thesis
      by (cases xs) (auto simp: hd_strings_Split strings_Split_Cons simp del: strings_Split.simps(2))
  next
    case False
    with Cons show ?thesis
      by (cases xs) (auto simp: strings_Split_Cons simp del: strings_Split.simps(2))
  qed
qed

lemma empty_piece_iff:
  "[] \<in> set (strings_Split s c) \<longleftrightarrow>
     s = [] \<or> hd s = c \<or> last s = c \<or> (\<exists>u v. s = u @ [c, c] @ v)"
proof -
  have ne: "strings_Split s c \<noteq> []" by (rule strings_Split_nonempty)
  have "[] \<in> set (strings_Split s c) \<longleftrightarrow>
          hd (strings_Split s c) = [] \<or> [] \<in> set (tl (strings_Split s c))"
    using ne by (cases "strings_Split s c") auto
  then show ?thesis
    by (auto simp: hd_strings_Split tl_strings_Split adjacent_iff)
qed

lemma strings_Join_Split: "strings_Join (strings_Split s c) [c] = s"
proof (induction s)
  case Nil
  show ?case by simp
next
  case (Cons x xs)
  obtain p ps where sp: "strings_Split xs c = p # ps"
    using strings_Split_nonempty [of xs c] by (cases "strings_Split xs c") auto
  with Cons show ?case by (cases ps) auto
qed

lemma strings_Split_pieces: "\<forall>p \<in> set (strings_Split s c). c \<notin> set p"
  by (induction s) (auto split: list.splits)

section \<open>The foreign-key field name\<close>

lemma digit7_iff: "digit7 c \<longleftrightarrow> 128 \<le> (of_char c :: nat)"
  by (cases c) simp

lemma ToUpper1_eq:
  "ToUpper1 c =
     (if c \<in> set ''abcdefghijklmnopqrstuvwxyz'' then [char_of (of_char c - 32 :: nat)]
      else if (of_char c :: nat) < 128 then [c]
      else [CHR 0xEF, CHR 0xBF, CHR 0xBD])"
  by (auto simp: ToUpper1_def digit7_iff char_of_def drop_bit_eq_div bit_Suc_0_iff)

lemma capitalize_parts_eq:
  "capitalize_parts ps buffer =
     (if [] \<in> set ps then Inl (Panic ''slice bounds out of range [:1] with length 0'')
      else Inr (buffer @ concat (map (\<lambda>p. ToUpper1 (hd p) @ tl p) ps)))"
  by (induction ps arbitrary: buffer) (auto split: list.splits)

text \<open>
  C10 (amended): the pieces of \<^verbatim>\<open>str\<close> between underscores are the strings without
  underscore that give \<^verbatim>\<open>str\<close> back when they are joined with underscores.  One of them
  is empty exactly when \<^verbatim>\<open>str\<close> is empty, begins or ends with an underscore or has two
  underscores in a row, and exactly then \<^verbatim>\<open>prepareForeignKey\<close> panics.  On every other
  input it returns the pieces joined without separator, each with its first byte mapped:
  a lower-case ASCII letter to its upper case (the byte 32 below), any other ASCII byte
  to itself, and a byte from \<open>0x80\<close> on to the three bytes of U+FFFD.
\<close>

theorem prepareForeignKey_total_iff:
  "strings_Join (strings_Split str CHR ''_'') ''_'' = str
   \<and> (\<forall>p \<in> set (strings_Split str CHR ''_''). CHR ''_'' \<notin> set p)
   \<and> ([] \<in> set (strings_Split str CHR ''_'') \<longleftrightarrow>
        str = [] \<or> hd str = CHR ''_'' \<or> last str = CHR ''_''
        \<or> (\<exists>u v. str = u @ ''__'' @ v))
   \<and> prepareForeignKey str =
     (if [] \<in> set (strings_Split str CHR ''_'')
      then Inl (Panic ''slice bounds out of range [:1] with length 0'')
      else Inr (concat (map
             (\<lambda>p. (if hd p \<in> set ''abcdefghijklmnopqrstuvwxyz''
                    then [char_of (of_char (hd p) - 32 :: nat)]
                   else if (of_char (hd p) :: nat) < 128 then [hd p]
                   else [CHR 0xEF, CHR 0xBF, CHR 0xBD]) @ tl p)
             (strings_Split str CHR ''_''))))"
proof -
  have "prepareForeignKey str =
     (if [] \<in> set (strings_Split str CHR ''_'')
      then Inl (Panic ''slice bounds out of range [:1] with length 0'')
      else Inr (concat (map (\<lambda>p. ToUpper1 (hd p) @ tl p) (strings_Split str CHR ''_''))))"
    by (simp add: prepareForeignKey_def capitalize_parts_eq)
  then show ?thesis
    using empty_piece_iff [of str "CHR ''_''"] strings_Join_Split [of str "CHR ''_''"]
      strings_Split_pieces [of str "CHR ''_''"]
    by (simp only: ToUpper1_eq)
qed

theorem prepareForeignKey_total_iff_witness:
  "strings_Split ''user_id'' CHR ''_'' = [''user'', ''id'']
   \<and> prepareForeignKey ''user_id'' = Inr ''UserId''
   \<and> strings_Split ''user__id'' CHR ''_'' = [''user'', '''', ''id'']
   \<and> prepareForeignKey ''user__id'' = Inl (Panic ''slice bounds out of range [:1] with length 0'')"
  using prepareForeignKey_total_iff [of "''user_id''"] prepareForeignKey_total_iff [of "''user__id''"]
  by (simp add: char_of_def drop_bit_eq_div bit_Suc_0_iff)

text \<open>
  The first character of a piece is not always capitalised: of the two bytes of
  \<^verbatim>\<open>U+00F1\<close> (\<open>C3 B1\<close>, the letter n with tilde) the first alone is not a character,
  so it comes back as U+FFFD and the second byte stays, where the capital letter
  \<^verbatim>\<open>U+00D1\<close> would be \<open>C3 91\<close>.
\<close>

theorem prepareForeignKey_first_byte_counterexample:
  "prepareForeignKey [CHR 0xC3, CHR 0xB1, CHR ''o'', CHR ''_'', CHR ''i'', CHR ''d'']
     = Inr [CHR 0xEF, CHR 0xBF, CHR 0xBD, CHR 0xB1, CHR ''o'', CHR ''I'', CHR ''d'']
   \<and> prepareForeignKey [CHR 0xC3, CHR 0xB1, CHR ''o'', CHR ''_'', CHR ''i'', CHR ''d'']
     \<noteq> Inr [CHR 0xC3, CHR 0x91, CHR ''o'', CHR ''I'', CHR ''d'']"
  by (simp add: prepareForeignKey_def ToUpper1_def)

section \<open>The filter compiler: loop lemmas\<close>

lemmas eval_simps = emit_def fmt_d_def show_nat.simps digit_char_def wrap_int_def Let_def

lemma emit_empty [simp]: "emit operator ([], cv) (qb, vals) = (qb, vals)"
  by (simp add: emit_def)

lemma addlog_addlog: "addlog lg (addlog l r) = addlog (lg @ l) r"
  by (simp add: addlog_def split: prod.splits)

lemma addlog_Nil [simp]: "addlog [] r = r"
  by (simp add: addlog_def split: prod.splits)

lemma filters_loop_step:
  "filters_loop operator (x # fs) (qb, vals, counter, lg) =
     (case filters_loop operator [x] (qb, vals, counter, []) of
        (qb', vals', counter', l) \<Rightarrow> filters_loop operator fs (qb', vals', counter', lg @ l))"
  by (cases x) (simp_all add: Let_def split: prod.splits)

lemma filters_loop_log:
  "filters_loop operator fs (qb, vals, counter, lg) =
     addlog lg (filters_loop operator fs (qb, vals, counter, []))"
proof (induction fs arbitrary: qb vals counter lg)
  case Nil
  show ?case by (simp add: addlog_def)
next
  case (Cons x fs)
  obtain q' v' c' l where st: "filters_loop operator [x] (qb, vals, counter, []) = (q', v', c', l)"
    by (cases "filters_loop operator [x] (qb, vals, counter, [])") auto
  have "filters_loop operator (x # fs) (qb, vals, counter, lg)
          = filters_loop operator fs (q', v', c', lg @ l)"
    by (subst filters_loop_step) (simp add: st)
  also have "\<dots> = addlog (lg @ l) (filters_loop operator fs (q', v', c', []))"
    by (rule Cons.IH)
  also have "\<dots> = addlog lg (addlog l (filters_loop operator fs (q', v', c', [])))"
    by (simp add: addlog_addlog)
  also have "addlog l (filters_loop operator fs (q', v', c', [])) = filters_loop operator fs (q', v', c', l)"
    by (rule Cons.IH [symmetric])
  also have "filters_loop operator fs (q', v', c', l) = filters_loop operator (x # fs) (qb, vals, counter, [])"
    by (subst filters_loop_step) (simp add: st)
  finally show ?case .
qed

lemma filters_loop_append:
  "filters_loop operator (fs @ gs) st = filters_loop operator gs (filters_loop operator fs st)"
proof (induction fs arbitrary: st)
  case Nil
  show ?case by simp
next
  case (Cons x fs)
  obtain qb vals counter lg where st: "st = (qb, vals, counter, lg)"
    by (cases st) auto
  obtain q' v' c' l where x: "filters_loop operator [x] (qb, vals, counter, []) = (q', v', c', l)"
    by (cases "filters_loop operator [x] (qb, vals, counter, [])") auto
  have "filters_loop operator ((x # fs) @ gs) st = filters_loop operator (fs @ gs) (q', v', c', lg @ l)"
    unfolding st append_Cons by (subst filters_loop_step) (simp add: x)
  also have "\<dots> = filters_loop operator gs (filters_loop operator fs (q', v', c', lg @ l))"
    by (rule Cons.IH)
  also have "filters_loop operator fs (q', v', c', lg @ l) = filters_loop operator (x # fs) st"
    unfolding st by (subst filters_loop_step) (simp add: x)
  finally show ?case .
qed

section \<open>Counter and arguments\<close>

lemma core_simp [simp]: "core (qb, vals, counter, lg) = (qb, vals, counter)"
  by (simp add: core_def)

lemma core_addlog [simp]: "core (addlog lg r) = core r"
  by (simp add: core_def addlog_def split: prod.splits)

lemma core_filters_loop_log:
  "core (filters_loop operator fs (qb, vals, counter, lg)) =
   core (filters_loop operator fs (qb, vals, counter, []))"
  by (subst filters_loop_log) simp

lemma filters_loop_invariant:
  assumes "\<And>x qb vals counter. x \<in> set fs \<Longrightarrow> R (qb, vals, counter)
             \<Longrightarrow> R (core (filters_loop operator [x] (qb, vals, counter, [])))"
    and "R (core st)"
  shows "R (core (filters_loop operator fs st))"
  using assms
proof (induction fs arbitrary: st)
  case Nil
  then show ?case by simp
next
  case (Cons x fs)
  obtain qb vals counter lg where st: "st = (qb, vals, counter, lg)"
    by (cases st) auto
  have "R (core (filters_loop operator [x] (qb, vals, counter, [])))"
    using Cons.prems(1) [of x qb vals counter] Cons.prems(2) by (simp add: st)
  then have "R (core (filters_loop operator [x] st))"
    unfolding st by (subst core_filters_loop_log)
  moreover have "filters_loop operator (x # fs) st = filters_loop operator fs (filters_loop operator [x] st)"
    using filters_loop_append [of operator "[x]" fs st] by simp
  ultimately show ?case
    using Cons.IH [of "filters_loop operator [x] st"] Cons.prems(1) by simp
qed

lemma wrap_int_id: "MinInt64 \<le> i \<Longrightarrow> i \<le> MaxInt64 \<Longrightarrow> wrap_int i = i"
  by (simp add: wrap_int_def MinInt64_def MaxInt64_def)

lemma wrap_int_Suc: "0 \<le> i \<Longrightarrow> i + 1 \<le> MaxInt64 \<Longrightarrow> wrap_int (i + 1) = i + 1"
  by (rule wrap_int_id) (simp_all add: MinInt64_def)

lemma multi_values_vals:
  "fst (snd (multi_values vs (parts, cv, counter, subitems))) = cv @ vs"
  by (induction vs arbitrary: parts cv counter subitems) auto

lemma multi_values_counter:
  assumes "0 \<le> counter" and "counter + int (length vs) \<le> MaxInt64"
  shows "fst (snd (snd (multi_values vs (parts, cv, counter, subitems)))) = counter + int (length vs)"
  using assms
proof (induction vs arbitrary: parts cv counter subitems)
  case Nil
  show ?case by simp
next
  case (Cons v vs)
  from Cons.prems have w: "wrap_int (counter + 1) = counter + 1"
    by (intro wrap_int_Suc) auto
  from Cons.prems have "0 \<le> counter + 1" and "counter + 1 + int (length vs) \<le> MaxInt64"
    by auto
  from Cons.IH [OF this] show ?case by (simp add: w)
qed

lemma multi_values_nonempty:
  "parts \<noteq> [] \<Longrightarrow> fst (multi_values vs (parts, cv, counter, subitems)) \<noteq> []"
  by (induction vs arbitrary: parts cv counter subitems) auto

lemma args_inv_emit:
  assumes "args_inv b (qb, vals, counter)" and "cur \<noteq> []"
    and "b + int (length vals) + int (length cv) \<le> MaxInt64 \<Longrightarrow> counter' = counter + int (length cv)"
  shows "args_inv b (case emit operator (cur, cv) (qb, vals) of (q, v) \<Rightarrow> (q, v, counter'))"
  using assms by (auto simp: args_inv_def emit_def)

lemma args_inv_step_Filter:
  assumes "args_inv b (qb, vals, counter)"
  shows "args_inv b (core (filters_loop operator [Filter key v cmp fop] (qb, vals, counter, [])))"
proof -
  let ?c = "case cmp of None \<Rightarrow> ''='' | Some c \<Rightarrow> c"
  have w: "wrap_int (counter + 1) = counter + int (length [v])"
    if "b + int (length vals) + int (length [v]) \<le> MaxInt64"
  proof -
    from that assms have "counter = b + int (length vals)" and "1 \<le> b"
      by (auto simp: args_inv_def)
    with that show ?thesis by (simp add: wrap_int_Suc)
  qed
  have a: "args_inv b (case emit operator (key @ '' '' @ ?c @ '' $'' @ fmt_d counter, [v]) (qb, vals) of
              (q, vs) \<Rightarrow> (q, vs, wrap_int (counter + 1)))"
    by (rule args_inv_emit [OF assms _ w]) simp_all
  have b: "args_inv b (case emit operator (key @ '' '' @ ?c, []) (qb, vals) of
              (q, vs) \<Rightarrow> (q, vs, counter))"
    by (rule args_inv_emit [OF assms]) simp_all
  show ?thesis
    using a b assms by (auto simp: Let_def split: prod.splits)
qed

lemma args_inv_step_Multi:
  assumes "args_inv b (qb, vals, counter)"
  shows "args_inv b (core (filters_loop operator [FilterMultipleValue key values cmp] (qb, vals, counter, [])))"
proof -
  let ?c = "case cmp of None \<Rightarrow> ''IN'' | Some c \<Rightarrow> c"
  obtain parts cv c' s where mv:
    "multi_values values (key @ '' '' @ ?c @ '' ('', [], counter, 1) = (parts, cv, c', s)"
    by (cases "multi_values values (key @ '' '' @ ?c @ '' ('', [], counter, 1)") auto
  from multi_values_vals [of "values" "key @ '' '' @ ?c @ '' (''" "[]" counter 1] mv
  have cv: "cv = values" by simp
  have c': "c' = counter + int (length cv)" if "b + int (length vals) + int (length cv) \<le> MaxInt64"
  proof -
    from that assms have "counter = b + int (length vals)" and "1 \<le> b"
      by (auto simp: args_inv_def)
    with that cv have "0 \<le> counter" and "counter + int (length values) \<le> MaxInt64" by auto
    from multi_values_counter [OF this, of "key @ '' '' @ ?c @ '' (''" "[]" 1] mv cv
    show ?thesis by simp
  qed
  have "args_inv b (case emit operator (parts @ '')'', cv) (qb, vals) of
              (q, vs) \<Rightarrow> (q, vs, c'))"
    by (rule args_inv_emit [OF assms _ c']) simp_all
  then show ?thesis
    using assms mv by (simp add: Let_def split: prod.splits)
qed

lemma args_inv_step_Group:
  assumes "args_inv b (qb, vals, counter)"
    and g: "\<And>c. args_inv (if c \<le> 0 then 1 else c) (core (prepareFilters g c))"
  shows "args_inv b (core (filters_loop operator [Group g] (qb, vals, counter, [])))"
proof -
  obtain sq sv nc sl where pf: "prepareFilters g counter = (sq, sv, nc, sl)"
    by (cases "prepareFilters g counter") auto
  from g [of counter] pf have e: "sq = [] \<longrightarrow> sv = []"
    by (auto simp: args_inv_def)
  have nc: "nc = counter + int (length sv)" if "b + int (length vals) + int (length sv) \<le> MaxInt64"
  proof -
    from that assms(1) have c: "counter = b + int (length vals)" and "1 \<le> b"
      by (auto simp: args_inv_def)
    then have "\<not> counter \<le> 0" by simp
    with g [of counter] pf that c show ?thesis
      by (auto simp: args_inv_def)
  qed
  show ?thesis
  proof (cases "sq = []")
    case True
    with e have "sv = []" by simp
    with nc True assms(1) pf show ?thesis by (auto simp: args_inv_def)
  next
    case False
    have "args_inv b (case emit operator (''('' @ sq @ '')'', sv) (qb, vals) of
              (q, vs) \<Rightarrow> (q, vs, nc))"
      by (rule args_inv_emit [OF assms(1) _ nc]) simp_all
    with False pf show ?thesis by (simp split: prod.splits)
  qed
qed

lemma args_inv_all:
  "\<forall>operator qb vals counter b. args_inv b (qb, vals, counter) \<longrightarrow>
       args_inv b (core (filters_loop operator [x] (qb, vals, counter, [])))"
  "\<forall>c. args_inv (if c \<le> 0 then 1 else c) (core (prepareFilters g c))"
proof (induction x and g)
  case (Filter key v cmp fop)
  show ?case by (blast intro: args_inv_step_Filter)
next
  case (FilterMultipleValue key "values" cmp)
  show ?case by (blast intro: args_inv_step_Multi)
next
  case (Group g)
  then show ?case by (blast intro: args_inv_step_Group)
next
  case (Other v)
  show ?case by simp
next
  case (GroupFilter fs operator)
  show ?case
  proof
    fix c :: int
    let ?b = "if c \<le> 0 then 1 else c"
    have "args_inv ?b (core (filters_loop operator fs ([], [], ?b, [])))"
    proof (rule filters_loop_invariant)
      show "args_inv ?b (core ([], [], ?b, []))" by (simp add: args_inv_def)
    next
      fix x qb vals counter
      assume "x \<in> set fs" and "args_inv ?b (qb, vals, counter)"
      with GroupFilter show "args_inv ?b (core (filters_loop operator [x] (qb, vals, counter, [])))"
        by blast
    qed
    then show "args_inv ?b (core (prepareFilters (GroupFilter fs operator) c))" by simp
  qed
qed

lemma prepareFilters_counter:
  assumes "prepareFilters g n = (frag, args, nxt, lg)"
  shows "(if n \<le> 0 then 1 else n) + int (length args) \<le> MaxInt64
           \<Longrightarrow> nxt = (if n \<le> 0 then 1 else n) + int (length args)"
    and "frag = [] \<Longrightarrow> args = []"
  using args_inv_all(2) [of g] assms by (auto simp: args_inv_def dest!: spec [of _ n])

section \<open>Decimal numbers and placeholders\<close>

lemma lt10: "(d::nat) < 10 \<Longrightarrow> d \<in> {0, 1, 2, 3, 4, 5, 6, 7, 8, 9}"
  by auto

lemma digit_char_props:
  assumes "d < 10"
  shows "is_digit (digit_char d)" and "digit_val (digit_char d) = d" and "digit_char d \<noteq> CHR ''$''"
  using lt10 [OF assms] by (auto simp: is_digit_def digit_val_def digit_char_def)

lemma show_nat_digits: "\<forall>c \<in> set (show_nat k). is_digit c \<and> c \<noteq> CHR ''$''"
proof (induction k rule: show_nat.induct)
  case (1 n)
  show ?case
  proof (cases "n < 10")
    case True
    then show ?thesis by (subst show_nat.simps) (simp add: digit_char_props)
  next
    case False
    have "n mod 10 < 10" by simp
    with False 1 show ?thesis
      by (subst show_nat.simps) (simp add: digit_char_props)
  qed
qed

lemma foldl_show_nat: "foldl (\<lambda>a c. a * 10 + digit_val c) 0 (show_nat k) = k"
proof (induction k rule: show_nat.induct)
  case (1 n)
  show ?case
  proof (cases "n < 10")
    case True
    then show ?thesis by (subst show_nat.simps) (simp add: digit_char_props)
  next
    case False
    have "n mod 10 < 10" by simp
    with False 1 show ?thesis
      by (subst show_nat.simps) (simp add: digit_char_props)
  qed
qed

lemma read_nat_show_nat:
  assumes "t = [] \<or> \<not> is_digit (hd t)"
  shows "read_nat (show_nat k @ t) = k"
proof -
  have "takeWhile is_digit t = []" using assms by (cases t) auto
  then have "takeWhile is_digit (show_nat k @ t) = show_nat k"
    using show_nat_digits [of k] by (simp add: takeWhile_append2)
  then show ?thesis by (simp add: read_nat_def foldl_show_nat)
qed

lemma placeholders_dollar_free: "dollar_free p \<Longrightarrow> placeholders (p @ s) = placeholders s"
  by (induction p) auto

lemma count_dollar_free: "dollar_free p \<Longrightarrow> count_list p CHR ''$'' = 0"
  by (induction p) auto

lemma dense_Nil: "dense [] n n"
  by (simp add: dense_def)

lemma dense_dollar_free: "dollar_free p \<Longrightarrow> dense p n n"
  by (simp add: dense_def placeholders_dollar_free)

lemma dense_prefix: "dollar_free p \<Longrightarrow> dense s n m \<Longrightarrow> dense (p @ s) n m"
  by (simp add: dense_def placeholders_dollar_free)

lemma denseD:
  "dense s n m \<Longrightarrow> t = [] \<or> \<not> is_digit (hd t) \<Longrightarrow> placeholders (s @ t) = [n..<m] @ placeholders t"
  unfolding dense_def by blast

lemma denseI:
  "n \<le> m \<Longrightarrow> (\<And>t. t = [] \<or> \<not> is_digit (hd t) \<Longrightarrow> placeholders (s @ t) = [n..<m] @ placeholders t)
     \<Longrightarrow> dense s n m"
  unfolding dense_def by blast

lemma dense_append:
  assumes "dense s n m" and "dense t m k" and "t = [] \<or> \<not> is_digit (hd t)"
  shows "dense (s @ t) n k"
proof -
  from assms have nm: "n \<le> m" and mk: "m \<le> k" by (auto simp: dense_def)
  have "placeholders ((s @ t) @ u) = [n..<k] @ placeholders u" if u: "u = [] \<or> \<not> is_digit (hd u)" for u
  proof -
    have "t @ u = [] \<or> \<not> is_digit (hd (t @ u))"
      using assms(3) u by (cases t) auto
    then have "placeholders (s @ (t @ u)) = [n..<m] @ placeholders (t @ u)"
      by (rule denseD [OF assms(1)])
    also have "placeholders (t @ u) = [m..<k] @ placeholders u"
      by (rule denseD [OF assms(2) u])
    also have "[n..<m] @ [m..<k] @ placeholders u = [n..<k] @ placeholders u"
      using nm mk upt_add_eq_append [of n m "k - m"] by simp
    finally show ?thesis by simp
  qed
  with nm mk show ?thesis by (intro denseI) auto
qed

lemma dense_placeholder: "dense (CHR ''$'' # show_nat k) k (Suc k)"
proof -
  have "dollar_free (show_nat k)" using show_nat_digits [of k] by auto
  then show ?thesis
    by (simp add: dense_def read_nat_show_nat placeholders_dollar_free)
qed

lemma count_show_nat: "count_list (show_nat k) CHR ''$'' = 0"
  using show_nat_digits [of k] by (intro count_dollar_free) auto

section \<open>Placeholders of a compiled fragment\<close>

lemma not_digit [simp]:
  "\<not> is_digit CHR '' ''" "\<not> is_digit CHR '',''" "\<not> is_digit CHR ''$''"
  "\<not> is_digit CHR ''(''" "\<not> is_digit CHR '')''"
  by (simp_all add: is_digit_def)

lemma fmt_d_nonneg: "0 \<le> c \<Longrightarrow> fmt_d c = show_nat (nat c)"
  by (simp add: fmt_d_def)

lemma count_fmt_d: "count_list (fmt_d c) CHR ''$'' = 0"
  by (simp add: fmt_d_def count_show_nat)

lemma holes_inv_emit:
  assumes j: "args_inv b (qb, vals, counter)" and k: "holes_inv b (qb, vals, counter)"
    and op: "dollar_free operator" and cur: "cur \<noteq> []"
    and g: "b + int (length vals) + int (length cv) \<le> MaxInt64
              \<Longrightarrow> dense cur (nat (b + int (length vals))) (nat (b + int (length vals) + int (length cv)))"
    and c: "count_list cur CHR ''$'' = length cv"
  shows "holes_inv b (case emit operator (cur, cv) (qb, vals) of (q, v) \<Rightarrow> (q, v, counter'))"
proof (cases "qb = []")
  case True
  with j have "vals = []" by (auto simp: args_inv_def)
  with True cur g c show ?thesis by (simp add: emit_def holes_inv_def)
next
  case False
  let ?op = "if operator \<noteq> [] then operator else OperatorAnd"
  let ?sep = "'' '' @ ?op @ '' ''"
  have df: "dollar_free ?sep" using op by auto
  from k have cq: "count_list qb CHR ''$'' = length vals"
    by (auto simp: holes_inv_def)
  have cnt: "count_list (qb @ ?sep @ cur) CHR ''$'' = length vals + length cv"
    using cq c count_dollar_free [OF df] by simp
  have "dense (qb @ ?sep @ cur) (nat b) (nat (b + int (length vals) + int (length cv)))"
    if le: "b + int (length vals) + int (length cv) \<le> MaxInt64"
  proof -
    from le have "b + int (length vals) \<le> MaxInt64" by simp
    with k have gq: "dense qb (nat b) (nat (b + int (length vals)))"
      by (auto simp: holes_inv_def)
    have "dense (?sep @ cur) (nat (b + int (length vals))) (nat (b + int (length vals) + int (length cv)))"
      using df g [OF le] by (rule dense_prefix)
    then show ?thesis
      by (rule dense_append [OF gq]) simp
  qed
  with cnt show ?thesis
    using False cur by (simp add: emit_def holes_inv_def add.assoc)
qed

lemma holes_inv_step_Filter:
  assumes j: "args_inv b (qb, vals, counter)" and k: "holes_inv b (qb, vals, counter)"
    and op: "dollar_free operator" and cl: "clean_filter (Filter key v cmp fop)"
  shows "holes_inv b (core (filters_loop operator [Filter key v cmp fop] (qb, vals, counter, [])))"
proof -
  define c where "c = (case cmp of None \<Rightarrow> ''='' | Some c \<Rightarrow> c)"
  from cl have key: "dollar_free key" and dc: "dollar_free c"
    by (auto simp: c_def split: option.splits)
  have pre: "dollar_free (key @ '' '' @ c @ '' '')" using key dc by simp
  have g1: "dense (key @ '' '' @ c @ '' $'' @ fmt_d counter) (nat (b + int (length vals)))
              (nat (b + int (length vals) + int (length [v])))"
    if le: "b + int (length vals) + int (length [v]) \<le> MaxInt64"
  proof -
    from le j have cn: "counter = b + int (length vals)" and b1: "1 \<le> b"
      by (auto simp: args_inv_def)
    then have c0: "0 \<le> counter" by simp
    have "dense ((key @ '' '' @ c @ '' '') @ CHR ''$'' # show_nat (nat counter)) (nat counter) (Suc (nat counter))"
      using pre dense_placeholder by (rule dense_prefix)
    then show ?thesis
      using c0 by (simp add: fmt_d_nonneg nat_add_distrib cn [symmetric])
  qed
  have c1: "count_list (key @ '' '' @ c @ '' $'' @ fmt_d counter) CHR ''$'' = length [v]"
    using key dc by (simp add: count_fmt_d count_dollar_free)
  have a: "holes_inv b (case emit operator (key @ '' '' @ c @ '' $'' @ fmt_d counter, [v]) (qb, vals) of
              (q, vs) \<Rightarrow> (q, vs, wrap_int (counter + 1)))"
    by (rule holes_inv_emit [OF j k op _ g1 c1]) simp_all
  have df2: "dollar_free (key @ '' '' @ c)" using key dc by simp
  have g2: "dense (key @ '' '' @ c) (nat (b + int (length vals)))
              (nat (b + int (length vals) + int (length ([]::val list))))"
    using dense_dollar_free [OF df2] by simp
  have c2: "count_list (key @ '' '' @ c) CHR ''$'' = length ([]::val list)"
    using count_dollar_free [OF df2] by simp
  have b: "holes_inv b (case emit operator (key @ '' '' @ c, []) (qb, vals) of
              (q, vs) \<Rightarrow> (q, vs, counter))"
    by (rule holes_inv_emit [OF j k op _ g2 c2]) simp
  have k': "holes_inv b (qb, vals, counter')" for counter'
    using k by (simp add: holes_inv_def)
  show ?thesis
    using a b k' by (auto simp: Let_def c_def split: prod.splits)
qed

lemma multi_values_count:
  "count_list (fst (multi_values vs (parts, cv, counter, subitems))) CHR ''$''
     = count_list parts CHR ''$'' + length vs"
  by (induction vs arbitrary: parts cv counter subitems) (auto simp: count_fmt_d)

lemma multi_values_dense:
  assumes "dense parts n (nat counter)" and "0 \<le> counter"
    and "counter + int (length vs) \<le> MaxInt64"
  shows "dense (fst (multi_values vs (parts, cv, counter, subitems))) n (nat (counter + int (length vs)))"
  using assms
proof (induction vs arbitrary: parts cv counter subitems)
  case Nil
  then show ?case by simp
next
  case (Cons v vs)
  let ?sep = "if subitems > 1 then '', '' else []"
  let ?parts = "(if subitems > 1 then parts @ '', '' else parts) @ ''$'' @ fmt_d counter"
  have eq: "?parts = parts @ ?sep @ CHR ''$'' # show_nat (nat counter)"
    using Cons.prems(2) by (simp add: fmt_d_nonneg)
  from Cons.prems have w: "wrap_int (counter + 1) = counter + 1"
    by (intro wrap_int_Suc) auto
  have "dense (?sep @ CHR ''$'' # show_nat (nat counter)) (nat counter) (Suc (nat counter))"
    by (rule dense_prefix [OF _ dense_placeholder]) simp
  then have "dense (parts @ ?sep @ CHR ''$'' # show_nat (nat counter)) n (Suc (nat counter))"
    by (rule dense_append [OF Cons.prems(1)]) simp
  then have g: "dense ?parts n (nat (counter + 1))"
    using Cons.prems(2) by (simp only: eq) (simp add: nat_add_distrib)
  have "0 \<le> counter + 1" and "counter + 1 + int (length vs) \<le> MaxInt64"
    using Cons.prems(2,3) by auto
  from Cons.IH [OF g this, of "cv @ [v]" "wrap_int (subitems + 1)"]
  have "dense (fst (multi_values vs (?parts, cv @ [v], counter + 1, wrap_int (subitems + 1)))) n
          (nat (counter + 1 + int (length vs)))" .
  moreover have "counter + 1 + int (length vs) = counter + int (length (v # vs))" by simp
  ultimately show ?case by (simp only: multi_values.simps w)
qed

lemma holes_inv_step_Multi:
  assumes j: "args_inv b (qb, vals, counter)" and k: "holes_inv b (qb, vals, counter)"
    and op: "dollar_free operator" and cl: "clean_filter (FilterMultipleValue key values cmp)"
  shows "holes_inv b (core (filters_loop operator [FilterMultipleValue key values cmp] (qb, vals, counter, [])))"
proof -
  define c where "c = (case cmp of None \<Rightarrow> ''IN'' | Some c \<Rightarrow> c)"
  from cl have df: "dollar_free (key @ '' '' @ c @ '' ('')"
    by (auto simp: c_def split: option.splits)
  obtain parts cv c' s where mv:
    "multi_values values (key @ '' '' @ c @ '' ('', [], counter, 1) = (parts, cv, c', s)"
    by (cases "multi_values values (key @ '' '' @ c @ '' ('', [], counter, 1)") auto
  from multi_values_vals [of "values" "key @ '' '' @ c @ '' (''" "[]" counter 1] mv
  have cv: "cv = values" by simp
  from multi_values_count [of "values" "key @ '' '' @ c @ '' (''" "[]" counter 1] mv
  have cp: "count_list parts CHR ''$'' = length values"
    using count_dollar_free [OF df] by simp
  have g: "dense (parts @ '')'') (nat (b + int (length vals))) (nat (b + int (length vals) + int (length cv)))"
    if le: "b + int (length vals) + int (length cv) \<le> MaxInt64"
  proof -
    from le j have cn: "counter = b + int (length vals)" and b1: "1 \<le> b"
      by (auto simp: args_inv_def)
    with le cv have c0: "0 \<le> counter" and le': "counter + int (length values) \<le> MaxInt64" by auto
    from multi_values_dense [OF dense_dollar_free [OF df] c0 le', of "[]" 1] mv
    have gp: "dense parts (nat counter) (nat (counter + int (length values)))" by simp
    have "dense '')'' (nat (counter + int (length values))) (nat (counter + int (length values)))"
      by (rule dense_dollar_free) simp
    then have "dense (parts @ '')'') (nat counter) (nat (counter + int (length values)))"
      by (rule dense_append [OF gp]) simp
    then show ?thesis by (simp add: cn cv)
  qed
  have cn: "count_list (parts @ '')'') CHR ''$'' = length cv"
    using cp cv by simp
  have "holes_inv b (case emit operator (parts @ '')'', cv) (qb, vals) of
              (q, vs) \<Rightarrow> (q, vs, c'))"
    by (rule holes_inv_emit [OF j k op _ g cn]) simp_all
  moreover have "holes_inv b (qb, vals, counter')" for counter'
    using k by (simp add: holes_inv_def)
  ultimately show ?thesis
    using mv by (auto simp: Let_def c_def split: prod.splits)
qed

lemma holes_inv_step_Group:
  assumes j: "args_inv b (qb, vals, counter)" and k: "holes_inv b (qb, vals, counter)"
    and op: "dollar_free operator"
    and g: "\<And>c. holes_inv (if c \<le> 0 then 1 else c) (core (prepareFilters g c))"
  shows "holes_inv b (core (filters_loop operator [Group g] (qb, vals, counter, [])))"
proof -
  obtain sq sv nc sl where pf: "prepareFilters g counter = (sq, sv, nc, sl)"
    by (cases "prepareFilters g counter") auto
  from prepareFilters_counter(2) [OF pf] have e: "sq = [] \<Longrightarrow> sv = []" .
  from g [of counter] pf have cs: "count_list sq CHR ''$'' = length sv"
    by (auto simp: holes_inv_def)
  have k': "holes_inv b (qb, vals, counter')" for counter'
    using k by (simp add: holes_inv_def)
  show ?thesis
  proof (cases "sq = []")
    case True
    with e k' pf show ?thesis by simp
  next
    case False
    have g1: "dense (''('' @ sq @ '')'') (nat (b + int (length vals)))
                (nat (b + int (length vals) + int (length sv)))"
      if le: "b + int (length vals) + int (length sv) \<le> MaxInt64"
    proof -
      from le j have cn: "counter = b + int (length vals)" and b1: "1 \<le> b"
        by (auto simp: args_inv_def)
      then have pos: "\<not> counter \<le> 0" by simp
      from g [of counter] pf pos le cn
      have gs: "dense sq (nat counter) (nat (counter + int (length sv)))"
        by (auto simp: holes_inv_def)
      have "dense '')'' (nat (counter + int (length sv))) (nat (counter + int (length sv)))"
        by (rule dense_dollar_free) simp
      then have "dense (sq @ '')'') (nat counter) (nat (counter + int (length sv)))"
        by (rule dense_append [OF gs]) simp
      then have "dense (''('' @ (sq @ '')'')) (nat counter) (nat (counter + int (length sv)))"
        by (rule dense_prefix [rotated]) simp
      then show ?thesis by (simp add: cn)
    qed
    have c1: "count_list (''('' @ sq @ '')'') CHR ''$'' = length sv"
      using cs by simp
    have "holes_inv b (case emit operator (''('' @ sq @ '')'', sv) (qb, vals) of
              (q, vs) \<Rightarrow> (q, vs, nc))"
      by (rule holes_inv_emit [OF j k op _ g1 c1]) simp_all
    with False pf show ?thesis by (simp split: prod.splits)
  qed
qed

lemma holes_inv_all:
  "clean_filter x \<longrightarrow> (\<forall>operator qb vals counter b. dollar_free operator \<longrightarrow>
       args_inv b (qb, vals, counter) \<longrightarrow> holes_inv b (qb, vals, counter) \<longrightarrow>
       holes_inv b (core (filters_loop operator [x] (qb, vals, counter, []))))"
  "clean_group g \<longrightarrow> (\<forall>c. holes_inv (if c \<le> 0 then 1 else c) (core (prepareFilters g c)))"
proof (induction x and g)
  case (Filter key v cmp fop)
  show ?case by (blast intro: holes_inv_step_Filter)
next
  case (FilterMultipleValue key "values" cmp)
  show ?case by (blast intro: holes_inv_step_Multi)
next
  case (Group g)
  show ?case
  proof (intro impI allI)
    fix operator qb vals counter b
    assume "clean_filter (Group g)" and "dollar_free operator"
      and "args_inv b (qb, vals, counter)" and "holes_inv b (qb, vals, counter)"
    with Group show "holes_inv b (core (filters_loop operator [Group g] (qb, vals, counter, [])))"
      by (intro holes_inv_step_Group) auto
  qed
next
  case (Other v)
  show ?case by simp
next
  case (GroupFilter fs operator)
  show ?case
  proof (intro impI allI)
    fix c :: int
    assume cl: "clean_group (GroupFilter fs operator)"
    let ?b = "if c \<le> 0 then 1 else c"
    let ?R = "\<lambda>st. args_inv ?b st \<and> holes_inv ?b st"
    have "?R (core (filters_loop operator fs ([], [], ?b, [])))"
    proof (rule filters_loop_invariant)
      show "?R (core ([], [], ?b, []))" by (simp add: args_inv_def holes_inv_def dense_Nil)
    next
      fix x qb vals counter
      assume x: "x \<in> set fs" and r: "?R (qb, vals, counter)"
      from x cl have "clean_filter x" and "dollar_free operator" by auto
      with GroupFilter [OF x] r have "holes_inv ?b (core (filters_loop operator [x] (qb, vals, counter, [])))"
        by blast
      moreover have "args_inv ?b (core (filters_loop operator [x] (qb, vals, counter, [])))"
        using args_inv_all(1) [of x] r by blast
      ultimately show "?R (core (filters_loop operator [x] (qb, vals, counter, [])))" by simp
    qed
    then show "holes_inv ?b (core (prepareFilters (GroupFilter fs operator) c))" by simp
  qed
qed

text \<open>
  C3 (amended): when no key, comparator or group operator of the tree contains \<^verbatim>\<open>$\<close>,
  the fragment has as many \<^verbatim>\<open>$\<close> as there are arguments.  For a start index
  \<open>n \<ge> 1\<close> such that \<open>n\<close> plus the number of arguments does not exceed \<open>MaxInt64\<close>,
  the next index returned is that sum, for every filter tree, and for a tree without
  \<^verbatim>\<open>$\<close> in those strings the placeholder indices of the fragment, read from left to
  right, are \<open>n, n + 1, \<dots>, n + length args - 1\<close>.
\<close>

theorem prepareFilters_placeholders_dense:
  assumes "1 \<le> n"
  shows "case prepareFilters F n of (frag, args, nxt, lg) \<Rightarrow>
           (clean_group F \<longrightarrow> count_list frag CHR ''$'' = length args) \<and>
           (n + int (length args) \<le> MaxInt64 \<longrightarrow>
              nxt = n + int (length args) \<and>
              (clean_group F \<longrightarrow> placeholders frag = [nat n ..< nat n + length args]))"
proof -
  obtain frag args nxt lg where pf: "prepareFilters F n = (frag, args, nxt, lg)"
    by (cases "prepareFilters F n") auto
  have nxt: "nxt = n + int (length args)" if "n + int (length args) \<le> MaxInt64"
    using prepareFilters_counter(1) [OF pf] assms that by simp
  have cnt: "count_list frag CHR ''$'' = length args" if "clean_group F"
    using holes_inv_all(2) [of F] that pf
    by (auto simp: holes_inv_def dest!: spec [of _ n])
  have "placeholders frag = [nat n ..< nat n + length args]"
    if cl: "clean_group F" and le: "n + int (length args) \<le> MaxInt64"
  proof -
    from holes_inv_all(2) [of F] cl pf assms le
    have g: "dense frag (nat n) (nat (n + int (length args)))"
      by (auto simp: holes_inv_def dest!: spec [of _ n])
    from denseD [OF g, of "[]"] have "placeholders frag = [nat n ..< nat (n + int (length args))]"
      by simp
    moreover have "nat (n + int (length args)) = nat n + length args"
      using assms by (simp add: nat_add_distrib)
    ultimately show ?thesis by simp
  qed
  with nxt cnt pf show ?thesis by simp
qed

theorem prepareFilters_placeholders_dense_witness:
  "prepareFilters (GroupFilter [Filter ''id'' (VInt 2) None None,
       Group (GroupFilter [Filter ''expires_at'' VNil (Some ''IS NULL'') None,
                           FilterMultipleValue ''k'' [VInt 7, VInt 8] None] ''OR'')] '''') 5
     = (''id = $5 AND (expires_at IS NULL OR k IN ($6, $7))'', [VInt 2, VInt 7, VInt 8], 8, [])
   \<and> 5 + int (length [VInt 2, VInt 7, VInt 8]) \<le> MaxInt64
   \<and> placeholders ''id = $5 AND (expires_at IS NULL OR k IN ($6, $7))'' = [5, 6, 7]"
  using prepareFilters_placeholders_dense [of 5 "GroupFilter [Filter ''id'' (VInt 2) None None,
       Group (GroupFilter [Filter ''expires_at'' VNil (Some ''IS NULL'') None,
                           FilterMultipleValue ''k'' [VInt 7, VInt 8] None] ''OR'')] ''''"]
  by (simp add: eval_simps MaxInt64_def upt_rec)

text \<open>
  Without the two conditions the property fails.  A key is copied into the fragment as
  it is, so a key that holds a placeholder adds one that has no argument.  And the
  counter wraps around: from the start index \<open>MaxInt64\<close> the second placeholder is
  \<^verbatim>\<open>$-9223372036854775808\<close> and the next index is negative.
\<close>

theorem prepareFilters_not_dense_counterexample:
  "prepareFilters (GroupFilter [Filter ''$2'' (VInt 7) None None] '''') 1
     = (''$2 = $1'', [VInt 7], 2, [])
   \<and> count_list ''$2 = $1'' CHR ''$'' \<noteq> length [VInt 7]
   \<and> placeholders ''$2 = $1'' = [2, 1]
   \<and> placeholders ''$2 = $1'' \<noteq> [1 ..< 1 + length [VInt 7]]
   \<and> prepareFilters (GroupFilter [Filter ''a'' (VInt 1) None None,
                                    Filter ''b'' (VInt 2) None None] '''') 9223372036854775807
     = (''a = $9223372036854775807 AND b = $-9223372036854775808'', [VInt 1, VInt 2],
        - 9223372036854775807, [])
   \<and> - 9223372036854775807 \<noteq> 9223372036854775807 + int (length [VInt 1, VInt 2])
   \<and> placeholders ''a = $9223372036854775807 AND b = $-9223372036854775808''
     = [9223372036854775807, 0]"
  by (simp add: eval_simps read_nat_def is_digit_def digit_val_def)

section \<open>Skipped nodes and the soft-delete rewrite\<close>

text \<open>
  C6: a single-value filter whose comparator is \<^verbatim>\<open>IN\<close> or \<^verbatim>\<open>NOT IN\<close> leaves the query
  builder, the values and the counter of the loop as they were and adds the diagnostic
  line to the log, at any position of any group; so the compiled group has the fragment,
  the arguments and the next index of the group without that node, and its log is the
  other log with the diagnostic line inserted.
\<close>

theorem Filter_IN_skipped:
  assumes "cmp = Some ComparatorIn \<or> cmp = Some ComparatorNotIn"
  shows "filters_loop operator (pre @ Filter key v cmp fop # post) st =
           (case filters_loop operator pre st of
              (qb, vals, counter, lg) \<Rightarrow> filters_loop operator post (qb, vals, counter, lg @ [diagnostic]))
         \<and> (case prepareFilters (GroupFilter (pre @ post) operator) n of
              (frag, args, nxt, lg) \<Rightarrow>
                \<exists>l1 l2. lg = l1 @ l2 \<and>
                  prepareFilters (GroupFilter (pre @ Filter key v cmp fop # post) operator) n
                    = (frag, args, nxt, l1 @ diagnostic # l2))"
proof -
  have step: "filters_loop operator (pre @ Filter key v cmp fop # post) st =
           (case filters_loop operator pre st of
              (qb, vals, counter, lg) \<Rightarrow> filters_loop operator post (qb, vals, counter, lg @ [diagnostic]))" for st
    using assms by (auto simp: filters_loop_append split: prod.splits)
  let ?init = "([], [], if n \<le> 0 then 1 else n, [])"
  obtain qb vals counter l1 where pre: "filters_loop operator pre ?init = (qb, vals, counter, l1)"
    by (cases "filters_loop operator pre ?init") auto
  obtain frag args nxt l2 where post: "filters_loop operator post (qb, vals, counter, []) = (frag, args, nxt, l2)"
    by (cases "filters_loop operator post (qb, vals, counter, [])") auto
  have a: "prepareFilters (GroupFilter (pre @ post) operator) n = (frag, args, nxt, l1 @ l2)"
    using filters_loop_log [of operator post qb vals counter l1]
    by (simp add: filters_loop_append pre post addlog_def)
  have b: "prepareFilters (GroupFilter (pre @ Filter key v cmp fop # post) operator) n
             = (frag, args, nxt, l1 @ diagnostic # l2)"
    using filters_loop_log [of operator post qb vals counter "l1 @ [diagnostic]"]
    by (simp add: step pre post addlog_def)
  from a b step show ?thesis by auto
qed

theorem Filter_IN_skipped_witness:
  "prepareFilters (GroupFilter [Filter ''id'' (VInt 2) None None,
                                Filter ''tag'' (VStr ''x'') (Some ''IN'') None,
                                Filter ''age'' (VInt 30) (Some ''>'') None] '''') 1
     = (''id = $1 AND age > $2'', [VInt 2, VInt 30], 3, [diagnostic])"
  using Filter_IN_skipped [of "Some ''IN''" "''''" "[Filter ''id'' (VInt 2) None None]" "''tag''" "VStr ''x''"
          None "[Filter ''age'' (VInt 30) (Some ''>'') None]" "([], [], 1, [])" 1]
  by (simp add: eval_simps)

text \<open>
  C2 (amended): with a non-empty soft-delete column \<open>d\<close>, the rewritten filter compiles
  to the fragment of \<open>F\<close>, then \<open>F\<close>'s own operator (\<^verbatim>\<open>AND\<close> when it is empty), then
  \<^verbatim>\<open>(d IS NULL)\<close>; to \<^verbatim>\<open>(d IS NULL)\<close> alone when \<open>F\<close> has filters but compiles to the
  empty fragment; and to \<^verbatim>\<open>d IS NULL\<close> when \<open>F\<close> has no filters.  The arguments are
  those of \<open>F\<close>, and so is the next index (the tombstone group is compiled from that
  index, so an index that has wrapped around to zero or below comes back as 1).
\<close>

theorem prepareSoftDelete_fragment:
  assumes "d \<noteq> []"
  shows "prepareFilters (prepareSoftDelete (Some d) F) n =
           (case prepareFilters F n of
              (frag, args, nxt, lg) \<Rightarrow>
                if Filters F = [] then (d @ '' IS NULL'', [], nxt, [])
                else if frag = [] then (''('' @ d @ '' IS NULL)'', args, if nxt \<le> 0 then 1 else nxt, lg)
                else (frag @ '' '' @ (if Operator F \<noteq> [] then Operator F else ''AND'') @ '' (''
                        @ d @ '' IS NULL)'', args, if nxt \<le> 0 then 1 else nxt, lg))"
proof -
  obtain fs operator where F: "F = GroupFilter fs operator" by (cases F) auto
  obtain frag args nxt lg where pf: "prepareFilters F n = (frag, args, nxt, lg)"
    by (cases "prepareFilters F n") auto
  show ?thesis
  proof (cases "fs = []")
    case True
    with assms F show ?thesis by (simp add: prepareSoftDelete_def emit_def)
  next
    case False
    have "prepareFilters (prepareSoftDelete (Some d) F) n =
            filters_loop operator [Group (GroupFilter [Filter d VNil (Some ''IS NULL'') (Some ''OR'')] ''OR'')]
              (prepareFilters F n)"
      using assms False F by (simp add: prepareSoftDelete_def filters_loop_append)
    also have "\<dots> = (case emit operator (''('' @ d @ '' IS NULL)'', []) (frag, args) of
                        (qb, vs) \<Rightarrow> (qb, vs, if nxt \<le> 0 then 1 else nxt, lg))"
      using assms by (simp add: pf emit_def)
    finally show ?thesis
      using False F pf by (simp add: emit_def)
  qed
qed

theorem prepareSoftDelete_fragment_witness:
  "prepareFilters (prepareSoftDelete (Some ''deleted_at'')
      (GroupFilter [Filter ''a'' (VInt 1) None None, Filter ''b'' (VInt 2) None None] ''OR'')) 1
   = (''a = $1 OR b = $2 OR (deleted_at IS NULL)'', [VInt 1, VInt 2], 3, [])"
  using prepareSoftDelete_fragment [of "''deleted_at''"
          "GroupFilter [Filter ''a'' (VInt 1) None None, Filter ''b'' (VInt 2) None None] ''OR''" 1]
  by (simp add: eval_simps)

text \<open>
  The tombstone group is not joined with \<^verbatim>\<open>OR\<close>: a group with the default operator
  gets \<^verbatim>\<open>AND\<close>.
\<close>

theorem prepareSoftDelete_not_OR_counterexample:
  "fst (prepareFilters (prepareSoftDelete (Some ''deleted_at'')
          (GroupFilter [Filter ''status'' (VStr ''active'') None None] '''')) 1)
     = ''status = $1 AND (deleted_at IS NULL)''
   \<and> fst (prepareFilters (GroupFilter [Filter ''status'' (VStr ''active'') None None] '''') 1)
     = ''status = $1''
   \<and> fst (prepareFilters (prepareSoftDelete (Some ''deleted_at'')
          (GroupFilter [Filter ''status'' (VStr ''active'') None None] '''')) 1)
     \<noteq> ''(status = $1) OR (deleted_at IS NULL)''"
  by (simp add: prepareSoftDelete_def eval_simps)

section \<open>The repository: evaluation rules\<close>

lemmas world_simps = QueryContext_def QueryRowContext_def ExecContext_def debug_log_def
  log_Println_def time_Now_def uuid_NewV7_def

lemma debug_log_fields [simp]:
  "issued (debug_log q l a w) = issued w"
  "on_query (debug_log q l a w) = on_query w"
  "on_query_row (debug_log q l a w) = on_query_row w"
  "on_exec (debug_log q l a w) = on_exec w"
  "clock (debug_log q l a w) = clock w"
  "sql_debug (debug_log q l a w) = sql_debug w"
  by (simp_all add: debug_log_def log_Println_def)

lemma Options0_sel:
  "Columns Options0 = None" "Limit Options0 = 0" "Offset Options0 = 0" "OrderColumn Options0 = []"
  "OrderDir Options0 = []" "Relations Options0 = []" "PrimaryKey Options0 = None"
  "InsertPrimaryKey Options0 = None" "TimestampsFields Options0 = None"
  by (simp_all add: Options0_def)

section \<open>Order columns\<close>

text \<open>
  C5: when the options name an order column that the repository does not allow,
  \<^verbatim>\<open>Get\<close> returns the error \<^verbatim>\<open>invalid order column\<close> and sends no statement to
  the database.
\<close>

theorem Get_invalid_order_column:
  assumes "opts = Some opt" and "OrderColumn opt \<noteq> ''''" and "OrderColumns c (OrderColumn opt) = None"
  shows "fst (Get c filters opts w) = Inl (Errorf (''invalid order column: '' @ OrderColumn opt))
       \<and> issued (snd (Get c filters opts w)) = issued w"
  using assms
  by (simp add: Get_def select_statement_def order_limit_def Let_def split: prod.splits)

theorem Get_invalid_order_column_witness:
  "fst (Get table_t (GroupFilter [] '''') (Some (Options0\<lparr>OrderColumn := ''name''\<rparr>)) quiet_world)
     = Inl (Errorf ''invalid order column: name'')
   \<and> issued (snd (Get table_t (GroupFilter [] '''') (Some (Options0\<lparr>OrderColumn := ''name''\<rparr>))
                 quiet_world)) = []"
  using Get_invalid_order_column [of "Some (Options0\<lparr>OrderColumn := ''name''\<rparr>)"
          "Options0\<lparr>OrderColumn := ''name''\<rparr>" table_t "GroupFilter [] ''''" quiet_world]
  by (simp add: table_t_def quiet_world_def)

section \<open>Relations of an empty result\<close>

lemma Load_empty: "Load l [] childs w = (Inr [], w)"
  by (cases l) (simp_all add: OnetoManyLoader_Load_def ManyToManyLoader_Load_def OnetoOneLoader_Load_def)

lemma load_relations_empty: "snd (load_relations loaders rels [] w) = w"
  by (induction rels) (auto simp: Load_empty split: prod.splits option.splits)

text \<open>
  C8: each of the three loaders returns at once, with the world as it was, when the list
  of parents is empty; and when the database answers the primary query of \<^verbatim>\<open>Get\<close>
  with zero rows, that query is the only statement \<^verbatim>\<open>Get\<close> sends, whatever
  \<^verbatim>\<open>opts.Relations\<close> holds.
\<close>

theorem Get_empty_result_no_relation_query:
  assumes "primary_query c filters opts = Inr stmt"
    and "on_query w (issued w) stmt = Inr ([], rows_err)"
  shows "OnetoOneLoader_Load l1 [] childs w' = (Inr [], w')
       \<and> OnetoManyLoader_Load l2 [] childs w' = (Inr [], w')
       \<and> ManyToManyLoader_Load l3 [] childs w' = (Inr [], w')
       \<and> issued (snd (Get c filters opts w)) = issued w @ [stmt]"
proof -
  obtain allFilters allVals counter lg where pf:
    "prepareFilters (soft_delete_filters c filters) 1 = (allFilters, allVals, counter, lg)"
    by (cases "prepareFilters (soft_delete_filters c filters) 1") auto
  obtain query args where stmt: "stmt = (query, args)" by (cases stmt) auto
  from assms(1) pf stmt have sel: "select_statement c opts allFilters allVals = Inr (query, args)"
    by (simp add: primary_query_def)
  have "issued (snd (Get c filters opts w)) = issued w @ [stmt]"
    using assms(2) stmt sel
    by (cases rows_err; cases opts; cases "RelationLoaders c")
       (simp_all add: Get_def pf Let_def QueryContext_def load_relations_empty)
  then show ?thesis
    by (simp add: OnetoManyLoader_Load_def ManyToManyLoader_Load_def OnetoOneLoader_Load_def)
qed

theorem Get_empty_result_no_relation_query_witness:
  "issued (snd (Get sessions_repo (GroupFilter [] '''')
        (Some (Options0\<lparr>Relations := [''user.roles.permissions'']\<rparr>)) quiet_world))
     = [(''SELECT * FROM sessions'', [])]"
  using Get_empty_result_no_relation_query [of sessions_repo "GroupFilter [] ''''"
          "Some (Options0\<lparr>Relations := [''user.roles.permissions'']\<rparr>)"
          "(''SELECT * FROM sessions'', [])" quiet_world None]
  by (simp add: primary_query_def select_statement_def order_limit_def soft_delete_filters_def
        sessions_repo_def quiet_world_def Options0_sel)

section \<open>Raw SQL values in an update\<close>

text \<open>
  C4: \<^verbatim>\<open>Update\<close> with the payload of the README, a \<^verbatim>\<open>RawSQL\<close> value for
  \<^verbatim>\<open>position\<close>: the \<^verbatim>\<open>SET\<close> clause gets the placeholder \<^verbatim>\<open>$1\<close> for it and the
  value travels in the argument list, like every other value.
\<close>

theorem Update_RawSQL_parameterised:
  "issued (snd (snd (Update table_t (GroupFilter [Filter ''id'' (VStr ''u'') None None] '''')
      (Some [(''position'', RawSQL ''position + 1''), (''name'', VStr ''x'')]) quiet_world)))
   = [(''UPDATE t SET position = $1, name = $2, updated_at = $3 WHERE id = $4'',
       [RawSQL ''position + 1'', VStr ''x'', VTime 0, VStr ''u'']),
      (''SELECT * FROM t WHERE id = $1 LIMIT 1'', [VStr ''u''])]"
  by (simp add: Update_def GetOne_def Get_def select_statement_def order_limit_def
        soft_delete_filters_def ToUpper_is_DESC_def Options0_def world_simps
        table_t_def quiet_world_def eval_simps AList.delete_eq
        map_assign_def map_delete_def map_range_def)

section \<open>Dotted relation paths\<close>

lemma chain_world_fields:
  "on_query chain_world = chain_db" "\<not> sql_debug chain_world"
  "Sprintf_v chain_world = Sprintf_v quiet_world" "issued chain_world = []"
  by (simp_all add: chain_world_def quiet_world_def)

lemma roles_Get:
  assumes "on_query w = chain_db" and "\<not> sql_debug w"
  shows "Get roles_repo (GroupFilter [FilterMultipleValue ''Id'' [VInt 3] (Some ''IN'')] '''') (Some Options0) w
         = (Inr [Entity [(''Id'', VInt 3), (''Name'', VStr ''admin'')] [(''Permissions'', [])]],
            w\<lparr>issued := issued w @ [(''SELECT * FROM roles WHERE Id IN ($1)'', [VInt 3])]\<rparr>)"
  using assms
  by (simp add: Get_def roles_repo_def select_statement_def order_limit_def soft_delete_filters_def
        Options0_def scanRow_def world_simps eval_simps chain_db_def)

lemma roles_loader_Load:
  assumes "on_query w = chain_db" and "\<not> sql_debug w" and "Sprintf_v w = Sprintf_v quiet_world"
  shows "ManyToManyLoader_Load
           \<lparr>PivotRepository = as_repository roles_repo, ConnectionIsDB = True,
            ParentKey = ''Id'', ChildKey = ''Id'', PivoteParentKey = ''user_id'',
            PivoteChildKey = ''role_id'', PivoteTable = ''roles_users'',
            PivotContainerField = ''Roles''\<rparr>
           [Entity [(''Id'', VInt 7), (''Name'', VStr ''ann'')] [(''Roles'', [])]] (Some []) w
         = (Inr [Entity [(''Id'', VInt 7), (''Name'', VStr ''ann'')]
                   [(''Roles'', [Entity [(''Id'', VInt 3), (''Name'', VStr ''admin'')]
                                   [(''Permissions'', [])]])]],
            w\<lparr>issued := issued w @
               [(''SELECT user_id, role_id FROM roles_users WHERE user_id IN ($1)'', [VInt 7]),
                (''SELECT * FROM roles WHERE Id IN ($1)'', [VInt 3])]\<rparr>)"
  using assms
  by (simp add: ManyToManyLoader_Load_def as_repository_def FieldByName_def ContainerByName_def
        set_container_def pivot_query_def roles_Get world_simps eval_simps chain_db_def
        child_options_def quiet_world_def)

lemma users_GetOne:
  assumes "on_query w = chain_db" and "\<not> sql_debug w" and "Sprintf_v w = Sprintf_v quiet_world"
  shows "GetOne users_repo (GroupFilter [Filter ''id'' (VInt 7) None None] '''')
           (Some (Options0\<lparr>Relations := [''roles'', ''permissions'']\<rparr>)) w
         = (Inl (Errorf ''relation loader not found for relation: permissions''),
            Some (Options0\<lparr>Relations := [''roles'', ''permissions''], Limit := 1\<rparr>),
            w\<lparr>issued := issued w @
               [(''SELECT * FROM users WHERE id = $1 LIMIT 1'', [VInt 7]),
                (''SELECT user_id, role_id FROM roles_users WHERE user_id IN ($1)'', [VInt 7]),
                (''SELECT * FROM roles WHERE Id IN ($1)'', [VInt 3])]\<rparr>)"
  using assms
  by (simp add: GetOne_def Get_def users_repo_def roles_loader_Load select_statement_def
        order_limit_def soft_delete_filters_def ToUpper_is_DESC_def split_relation_def
        strings_Contains_def scanRow_def world_simps eval_simps chain_db_def Options0_def)

lemma user_loader_Load:
  assumes "on_query w = chain_db" and "\<not> sql_debug w" and "Sprintf_v w = Sprintf_v quiet_world"
  shows "OnetoOneLoader_Load
           \<lparr>Repository = as_repository users_repo, ParentField = ''UserId'',
            ChildFkField = ''id'', ContainerField = ''User''\<rparr>
           [Entity [(''Id'', VInt 1), (''UserId'', VInt 7)] [(''User'', [])]]
           (Some [''roles'', ''permissions'']) w
         = (Inl (Wrap ''failed to load child model''
                   (Errorf ''relation loader not found for relation: permissions'')),
            w\<lparr>issued := issued w @
               [(''SELECT * FROM users WHERE id = $1 LIMIT 1'', [VInt 7]),
                (''SELECT user_id, role_id FROM roles_users WHERE user_id IN ($1)'', [VInt 7]),
                (''SELECT * FROM roles WHERE Id IN ($1)'', [VInt 3])]\<rparr>)"
  using assms
  by (simp add: OnetoOneLoader_Load_def as_repository_def FieldByName_def child_options_def
        users_GetOne)

text \<open>
  C1: \<^verbatim>\<open>Get\<close> on the sessions with the relation \<^verbatim>\<open>user.roles.permissions\<close> of the
  README.  The loader of \<^verbatim>\<open>user\<close> gets the two strings \<^verbatim>\<open>roles\<close> and
  \<^verbatim>\<open>permissions\<close>, not the one string \<^verbatim>\<open>roles.permissions\<close>; the repository of the
  users then loads \<^verbatim>\<open>roles\<close> without a remaining path and looks for a relation
  \<^verbatim>\<open>permissions\<close> of its own, which it does not have, so the call fails after four
  statements and no permission is read.
\<close>

theorem Get_dotted_relation_passes_segments:
  "split_relation ''user.roles.permissions'' = (''user'', [''roles'', ''permissions''])
   \<and> Get sessions_repo (GroupFilter [] '''')
         (Some (Options0\<lparr>Relations := [''user.roles.permissions'']\<rparr>)) chain_world
       = (Inl (Wrap ''failed to load relation user''
                (Wrap ''failed to load child model''
                  (Errorf ''relation loader not found for relation: permissions''))),
          chain_world\<lparr>issued :=
            [(''SELECT * FROM sessions'', []),
             (''SELECT * FROM users WHERE id = $1 LIMIT 1'', [VInt 7]),
             (''SELECT user_id, role_id FROM roles_users WHERE user_id IN ($1)'', [VInt 7]),
             (''SELECT * FROM roles WHERE Id IN ($1)'', [VInt 3])]\<rparr>)"
proof -
  have split: "split_relation ''user.roles.permissions'' = (''user'', [''roles'', ''permissions''])"
    by (simp add: split_relation_def strings_Contains_def)
  have a: "prepareFilters (soft_delete_filters sessions_repo (GroupFilter [] '''')) 1 = ('''', [], 1, [])"
    by (simp add: soft_delete_filters_def sessions_repo_def)
  have b: "select_statement sessions_repo (Some (Options0\<lparr>Relations := [''user.roles.permissions'']\<rparr>)) [] []
             = Inr (''SELECT * FROM sessions'', [])"
    by (simp add: select_statement_def order_limit_def sessions_repo_def Options0_sel)
  have q: "QueryContext ''SELECT * FROM sessions'' []
             (debug_log ''SELECT * FROM sessions'' ''SQL Args:'' [] chain_world)
           = (Inr ([[VInt 1, VInt 7]], None), chain_world\<lparr>issued := [(''SELECT * FROM sessions'', [])]\<rparr>)"
    by (simp add: world_simps chain_world_fields chain_db_def)
  have s: "scanRow sessions_repo (Inr [VInt 1, VInt 7])
             = Inr (Entity [(''Id'', VInt 1), (''UserId'', VInt 7)] [(''User'', [])])"
    by (simp add: scanRow_def sessions_repo_def)
  have l: "RelationLoaders sessions_repo = Some [''user'' \<mapsto> OnetoOneLoader
        \<lparr>Repository = as_repository users_repo, ParentField = ''UserId'',
         ChildFkField = ''id'', ContainerField = ''User''\<rparr>]"
    by (simp add: sessions_repo_def)
  have "Get sessions_repo (GroupFilter [] '''')
         (Some (Options0\<lparr>Relations := [''user.roles.permissions'']\<rparr>)) chain_world
       = (Inl (Wrap ''failed to load relation user''
                (Wrap ''failed to load child model''
                  (Errorf ''relation loader not found for relation: permissions''))),
          chain_world\<lparr>issued :=
            [(''SELECT * FROM sessions'', []),
             (''SELECT * FROM users WHERE id = $1 LIMIT 1'', [VInt 7]),
             (''SELECT user_id, role_id FROM roles_users WHERE user_id IN ($1)'', [VInt 7]),
             (''SELECT * FROM roles WHERE Id IN ($1)'', [VInt 3])]\<rparr>)"
    by (simp add: Get_def a b q s l split user_loader_Load chain_world_fields)
  with split show ?thesis by simp
qed

section \<open>Key types in the many-to-many loader\<close>

text \<open>
  The loader looks a child up in the pivot's map by its key as an \<^verbatim>\<open>any\<close>.  When the
  struct declares the key as \<^verbatim>\<open>int\<close> and the pivot row holds the \<^verbatim>\<open>int64\<close> of the
  driver, the two are never equal: the child is left out with a log line and the parent
  keeps its container as it was.
\<close>

lemma tags_Get:
  assumes "on_query w = tags_db" and "\<not> sql_debug w"
  shows "Get tags_repo (GroupFilter [FilterMultipleValue ''Id'' [VInt 5] (Some ''IN'')] '''') (Some Options0) w
         = (Inr [Entity [(''Id'', VGoInt 5), (''Name'', VStr ''go'')] []],
            w\<lparr>issued := issued w @ [(''SELECT * FROM tags WHERE Id IN ($1)'', [VInt 5])]\<rparr>)"
  using assms
  by (simp add: Get_def tags_repo_def select_statement_def order_limit_def soft_delete_filters_def
        Options0_def scanRow_def scan_int_key_def world_simps eval_simps tags_db_def)

lemma ManyToManyLoader_Load_key_types:
  "ManyToManyLoader_Load tags_loader
     [Entity [(''Id'', VGoInt 1), (''Name'', VStr ''news'')] [(''Tags'', [])]] (Some []) tags_world
   = (Inr [Entity [(''Id'', VGoInt 1), (''Name'', VStr ''news'')] [(''Tags'', [])]],
      tags_world\<lparr>issued :=
          [(''SELECT post_id, tag_id FROM posts_tags WHERE post_id IN ($1)'', [VGoInt 1]),
           (''SELECT * FROM tags WHERE Id IN ($1)'', [VInt 5])],
        logged := [[S ''No parent IDs found for child key value:'', Vs [VGoInt 5]]]\<rparr>)"
proof -
  have w: "on_query tags_world = tags_db" "\<not> sql_debug tags_world" "issued tags_world = []"
    "logged tags_world = []"
    by (simp_all add: tags_world_def quiet_world_def)
  show ?thesis
    by (simp add: ManyToManyLoader_Load_def tags_loader_def as_repository_def FieldByName_def
          ContainerByName_def set_container_def pivot_query_def tags_Get w world_simps eval_simps
          tags_db_def child_options_def)
qed

section \<open>Soft delete\<close>
















section \<open>What the calls leave in their arguments\<close>

lemma default_options_eq:
  "default_options opt =
     opt\<lparr>PrimaryKey := Some (case PrimaryKey opt of None \<Rightarrow> ''id'' | Some k \<Rightarrow> k),
         InsertPrimaryKey := Some (case InsertPrimaryKey opt of None \<Rightarrow> True | Some b \<Rightarrow> b),
         TimestampsFields := Some (case TimestampsFields opt of None \<Rightarrow> True | Some b \<Rightarrow> b)\<rparr>"
  by (cases opt) (auto simp: default_options_def Let_def split: option.splits)

lemma Create_map:
  assumes "uuid_source w (uuid_count w) = Inr u"
  shows "fst (snd (Create c (Some m) opts w)) =
           Some (let opts' = default_options (case opts of None \<Rightarrow> Options0 | Some opt \<Rightarrow> opt);
                     data1 = (if InsertPrimaryKey opts' = Some True
                              then AList.update (the (PrimaryKey opts')) (VStr u) m else m)
                 in if TimestampsFields opts' = Some True
                    then AList.update ''updated_at'' (VTime (clock w))
                           (AList.update ''created_at'' (VTime (clock w)) data1)
                    else data1)"
  using assms
  by (auto simp: Create_def uuid_NewV7_def time_Now_def Let_def map_assign_def stamp_created_def
           split: prod.splits option.splits)

lemma Create_options:
  assumes "uuid_source w (uuid_count w) = Inr u"
  shows "fst (snd (snd (Create c data opts w))) = map_option default_options opts"
  using assms
  by (cases opts)
     (auto simp: Create_def uuid_NewV7_def Let_def split: prod.splits sum.splits)

lemma Create_inputs_failed:
  assumes "uuid_source w (uuid_count w) = Inl e"
  shows "fst (snd (Create c data opts w)) = data" and "fst (snd (snd (Create c data opts w))) = opts"
  using assms by (simp_all add: Create_def uuid_NewV7_def)

lemma Update_map:
  "fst (snd (Update c filters (Some m) w)) =
     Some (AList.update ''updated_at'' (VTime (clock w))
             (AList.delete ''created_at'' (AList.delete ''id'' m)))"
  by (simp add: Update_def time_Now_def Let_def map_assign_def map_delete_def
        split: prod.splits sum.splits)

lemma GetOne_options:
  "fst (snd (GetOne c filters opts w)) = map_option (\<lambda>opt. opt\<lparr>Limit := 1\<rparr>) opts"
  by (cases opts) (simp_all add: GetOne_def Let_def split: prod.splits sum.splits)

text \<open>
  C9 (amended): the three calls write through what the caller passed.  When the UUID
  was generated, \<^verbatim>\<open>Create\<close> leaves in the caller's map, if it is not the \<^verbatim>\<open>nil\<close> map,
  the timestamps under \<^verbatim>\<open>created_at\<close> and \<^verbatim>\<open>updated_at\<close> if \<^verbatim>\<open>TimestampsFields\<close> is
  unset or true, the new key under the primary-key column if \<^verbatim>\<open>InsertPrimaryKey\<close> is
  unset or true, and every other key as it was; and it leaves in the caller's
  \<^verbatim>\<open>Options\<close> the defaults \<^verbatim>\<open>"id"\<close>, \<^verbatim>\<open>true\<close>, \<^verbatim>\<open>true\<close> in the fields \<^verbatim>\<open>PrimaryKey\<close>,
  \<^verbatim>\<open>InsertPrimaryKey\<close>, \<^verbatim>\<open>TimestampsFields\<close> that were unset, and every other field as
  it was.  When the UUID could not be generated, map and options are untouched.
  \<^verbatim>\<open>Update\<close> leaves a map that is not \<^verbatim>\<open>nil\<close> without \<^verbatim>\<open>id\<close> and \<^verbatim>\<open>created_at\<close>, with
  the time under \<^verbatim>\<open>updated_at\<close>, and every other key as it was.  \<^verbatim>\<open>GetOne\<close> leaves
  the caller's \<^verbatim>\<open>Options\<close> with \<^verbatim>\<open>Limit = 1\<close> and every other field as it was.
\<close>

theorem caller_inputs_after_call:
  "(uuid_source w (uuid_count w) = Inr u \<longrightarrow>
      (\<exists>m'. fst (snd (Create c (Some m) opts w)) = Some m' \<and>
         (\<forall>k. map_of m' k =
           (if (case opts of None \<Rightarrow> True | Some opt \<Rightarrow> TimestampsFields opt \<noteq> Some False)
               \<and> (k = ''created_at'' \<or> k = ''updated_at'')
            then Some (VTime (clock w))
            else if (case opts of None \<Rightarrow> True | Some opt \<Rightarrow> InsertPrimaryKey opt \<noteq> Some False)
               \<and> k = (case opts of None \<Rightarrow> ''id''
                        | Some opt \<Rightarrow> (case PrimaryKey opt of None \<Rightarrow> ''id'' | Some pk \<Rightarrow> pk))
            then Some (VStr u)
            else map_of m k)))
      \<and> fst (snd (snd (Create c data opts w))) =
          map_option (\<lambda>opt.
            opt\<lparr>PrimaryKey := Some (case PrimaryKey opt of None \<Rightarrow> ''id'' | Some k \<Rightarrow> k),
                InsertPrimaryKey := Some (case InsertPrimaryKey opt of None \<Rightarrow> True | Some b \<Rightarrow> b),
                TimestampsFields := Some (case TimestampsFields opt of None \<Rightarrow> True | Some b \<Rightarrow> b)\<rparr>)
            opts)
   \<and> (uuid_source w (uuid_count w) = Inl e \<longrightarrow>
        fst (snd (Create c data opts w)) = data \<and> fst (snd (snd (Create c data opts w))) = opts)
   \<and> (\<exists>m'. fst (snd (Update c filters (Some m) w)) = Some m' \<and>
         (\<forall>k. map_of m' k =
           (if k = ''updated_at'' then Some (VTime (clock w))
            else if k = ''id'' \<or> k = ''created_at'' then None
            else map_of m k)))
   \<and> fst (snd (GetOne c filters opts w)) = map_option (\<lambda>opt. opt\<lparr>Limit := 1\<rparr>) opts"
proof -
  have create: "\<exists>m'. fst (snd (Create c (Some m) opts w)) = Some m' \<and>
         (\<forall>k. map_of m' k =
           (if (case opts of None \<Rightarrow> True | Some opt \<Rightarrow> TimestampsFields opt \<noteq> Some False)
               \<and> (k = ''created_at'' \<or> k = ''updated_at'')
            then Some (VTime (clock w))
            else if (case opts of None \<Rightarrow> True | Some opt \<Rightarrow> InsertPrimaryKey opt \<noteq> Some False)
               \<and> k = (case opts of None \<Rightarrow> ''id''
                        | Some opt \<Rightarrow> (case PrimaryKey opt of None \<Rightarrow> ''id'' | Some pk \<Rightarrow> pk))
            then Some (VStr u)
            else map_of m k))"
    if "uuid_source w (uuid_count w) = Inr u"
    by (subst Create_map [OF that])
       (auto simp: default_options_eq Options0_sel Let_def update_conv' split: option.splits)
  have copts: "fst (snd (snd (Create c data opts w))) =
          map_option (\<lambda>opt.
            opt\<lparr>PrimaryKey := Some (case PrimaryKey opt of None \<Rightarrow> ''id'' | Some k \<Rightarrow> k),
                InsertPrimaryKey := Some (case InsertPrimaryKey opt of None \<Rightarrow> True | Some b \<Rightarrow> b),
                TimestampsFields := Some (case TimestampsFields opt of None \<Rightarrow> True | Some b \<Rightarrow> b)\<rparr>)
            opts"
    if "uuid_source w (uuid_count w) = Inr u"
    by (subst Create_options [OF that]) (cases opts; simp add: default_options_eq)
  have update: "\<exists>m'. fst (snd (Update c filters (Some m) w)) = Some m' \<and>
         (\<forall>k. map_of m' k =
           (if k = ''updated_at'' then Some (VTime (clock w))
            else if k = ''id'' \<or> k = ''created_at'' then None
            else map_of m k))"
    by (simp add: Update_map update_conv' delete_conv')
  from create copts update show ?thesis
    by (simp add: Create_inputs_failed GetOne_options)
qed

theorem caller_inputs_after_call_witness:
  "fst (snd (Create table_t (Some [(''name'', VStr ''x'')]) None quiet_world))
     = Some [(''name'', VStr ''x''), (''id'', VStr ''0192f3a0-0000-7000-8000-000000000000''),
             (''created_at'', VTime 0), (''updated_at'', VTime 0)]
   \<and> (\<exists>m'. fst (snd (Create table_t (Some [(''name'', VStr ''x'')]) None quiet_world)) = Some m'
          \<and> map_of m' ''name'' = Some (VStr ''x''))
   \<and> (\<exists>m'. fst (snd (Update table_t (GroupFilter [] '''')
                        (Some [(''id'', VInt 4), (''name'', VStr ''x'')]) quiet_world)) = Some m'
          \<and> map_of m' ''name'' = Some (VStr ''x'') \<and> map_of m' ''id'' = None)
   \<and> fst (snd (GetOne table_t (GroupFilter [] '''') (Some (Options0\<lparr>Offset := 5\<rparr>)) quiet_world))
     = Some (Options0\<lparr>Offset := 5, Limit := 1\<rparr>)"
proof -
  have u: "uuid_source quiet_world (uuid_count quiet_world) = Inr ''0192f3a0-0000-7000-8000-000000000000''"
    by (simp add: quiet_world_def)
  have q0: "clock quiet_world = 0" by (simp add: quiet_world_def)
  have c: "fst (snd (Create table_t (Some [(''name'', VStr ''x'')]) None quiet_world))
     = Some [(''name'', VStr ''x''), (''id'', VStr ''0192f3a0-0000-7000-8000-000000000000''),
             (''created_at'', VTime 0), (''updated_at'', VTime 0)]"
    by (simp add: Create_map [OF u] default_options_eq Options0_sel q0)
  from caller_inputs_after_call [of quiet_world "''0192f3a0-0000-7000-8000-000000000000''" table_t
         "[(''name'', VStr ''x'')]" None None ErrNoRows "GroupFilter [] ''''"]
  have a: "\<exists>m'. fst (snd (Create table_t (Some [(''name'', VStr ''x'')]) None quiet_world)) = Some m'
          \<and> map_of m' ''name'' = Some (VStr ''x'')"
    using u by auto
  from caller_inputs_after_call [of quiet_world "''0192f3a0-0000-7000-8000-000000000000''" table_t
         "[(''id'', VInt 4), (''name'', VStr ''x'')]" "Some (Options0\<lparr>Offset := 5\<rparr>)" None ErrNoRows
         "GroupFilter [] ''''"]
  have b: "\<exists>m'. fst (snd (Update table_t (GroupFilter [] '''')
                        (Some [(''id'', VInt 4), (''name'', VStr ''x'')]) quiet_world)) = Some m'
          \<and> map_of m' ''name'' = Some (VStr ''x'') \<and> map_of m' ''id'' = None"
    and g: "fst (snd (GetOne table_t (GroupFilter [] '''') (Some (Options0\<lparr>Offset := 5\<rparr>)) quiet_world))
          = Some (Options0\<lparr>Offset := 5, Limit := 1\<rparr>)"
    by auto
  from c a b g show ?thesis by blast
qed

text \<open>
  With \<^verbatim>\<open>InsertPrimaryKey\<close> set to false, \<^verbatim>\<open>Create\<close> writes no key into the map; the
  caller's \<^verbatim>\<open>Options\<close> come back changed, with the defaults in \<^verbatim>\<open>PrimaryKey\<close> and
  \<^verbatim>\<open>TimestampsFields\<close>; and \<^verbatim>\<open>Update\<close> on the \<^verbatim>\<open>nil\<close> map panics and writes nothing.
\<close>

theorem Create_writes_options_counterexample:
  "(\<exists>m'. fst (snd (Create table_t (Some [(''name'', VStr ''x'')])
                      (Some (Options0\<lparr>InsertPrimaryKey := Some False\<rparr>)) quiet_world)) = Some m'
         \<and> map_of m' ''id'' = None)
   \<and> fst (snd (snd (Create table_t (Some [(''name'', VStr ''x'')])
                       (Some (Options0\<lparr>InsertPrimaryKey := Some False\<rparr>)) quiet_world)))
     = Some (Options0\<lparr>PrimaryKey := Some ''id'', InsertPrimaryKey := Some False,
                       TimestampsFields := Some True\<rparr>)
   \<and> fst (snd (snd (Create table_t (Some [(''name'', VStr ''x'')])
                       (Some (Options0\<lparr>InsertPrimaryKey := Some False\<rparr>)) quiet_world)))
     \<noteq> Some (Options0\<lparr>InsertPrimaryKey := Some False\<rparr>)
   \<and> fst (Update table_t (GroupFilter [] '''') None quiet_world)
     = Inl (Panic ''assignment to entry in nil map'')
   \<and> fst (snd (Update table_t (GroupFilter [] '''') None quiet_world)) = None"
proof -
  have u: "uuid_source quiet_world (uuid_count quiet_world) = Inr ''0192f3a0-0000-7000-8000-000000000000''"
    by (simp add: quiet_world_def)
  have n: "Update table_t (GroupFilter [] '''') None quiet_world
             = (Inl (Panic ''assignment to entry in nil map''), None, quiet_world\<lparr>clock := 1\<rparr>)"
    by (simp add: Update_def time_Now_def map_assign_def map_delete_def quiet_world_def)
  show ?thesis
    by (simp add: Create_map [OF u] Create_options [OF u] default_options_eq Options0_def n)
qed

end
